theory Spec2Isabelle
  imports Complex_Main "HOL-Library.Sublist"
begin

section \<open>Python values and exceptions\<close>

text \<open>
  The bridge (\<^verbatim>\<open>src/bridge/particle-bridge.py\<close>) is a Python script. Its text is
  modelled by \<^typ>\<open>string\<close>: the event stream is decoded one character at a time, and a
  character of the model is a code point in the range 0..255.

  Exceptions are values. Only the classes that the script's handlers tell apart, or that the
  operations used by the script raise, are listed. \<open>KeyboardInterrupt\<close> is not an
  \<open>Exception\<close> in Python and is modelled separately, as an event of the environment.
\<close>

datatype exc = JSONDecodeError | TypeError | KeyError | ValueError | OverflowError | WriteError

text \<open>
  A Python float is a binary64 number: a finite value (kept as the rational it denotes; the
  sign of zero is not kept), an infinity or a NaN.
\<close>

datatype pyfloat = Finite rat | PosInf | NegInf | NaN

text \<open>
  The values \<^verbatim>\<open>json.loads\<close> returns: \<open>None\<close>, \<open>bool\<close>, \<open>int\<close>, \<open>float\<close>,
  \<open>str\<close>, \<open>list\<close> and \<open>dict\<close>. A dict is an association list read with
  \<^const>\<open>map_of\<close>.
\<close>

datatype json =
    JNull
  | JBool bool
  | JInt int
  | JFloat pyfloat
  | JStr string
  | JArr "json list"
  | JObj "(string \<times> json) list"

section \<open>String operations\<close>

definition nl :: char where
  "nl = CHR 0x0A"

text \<open>\<^verbatim>\<open>s.startswith(p)\<close>\<close>

definition startswith :: "string \<Rightarrow> string \<Rightarrow> bool" where
  "startswith s p = prefix p s"

text \<open>\<^verbatim>\<open>sub in s\<close> for two strings: \<open>sub\<close> occurs in \<open>s\<close> as a contiguous block.\<close>

fun str_contains :: "string \<Rightarrow> string \<Rightarrow> bool" where
  "str_contains sub [] = (sub = [])"
| "str_contains sub (c # cs) = (prefix sub (c # cs) \<or> str_contains sub cs)"

text \<open>
  \<^verbatim>\<open>s.split(sep)\<close>: the text is scanned from the left, each occurrence of the separator
  found ends a piece and the scan resumes after it. The script calls it with the literals
  \<^verbatim>\<open>'\n\n'\<close> and \<^verbatim>\<open>'\n'\<close> only (Python raises \<open>ValueError\<close> for an empty separator; here
  an empty separator is never found).
\<close>

function py_split :: "string \<Rightarrow> string \<Rightarrow> string list" where
  "py_split sep [] = [[]]"
| "py_split sep (c # cs) =
     (if sep \<noteq> [] \<and> prefix sep (c # cs)
      then [] # py_split sep (drop (length sep) (c # cs))
      else (case py_split sep cs of
              [] \<Rightarrow> [[c]]
            | p # ps \<Rightarrow> (c # p) # ps))"
  by pat_completeness auto
termination
  by (relation "measure (\<lambda>(sep, s). length s)") (auto simp: neq_Nil_conv)

text \<open>
  \<^verbatim>\<open>str.isspace\<close> on one character, for the code points below 256, and
  \<^verbatim>\<open>s.strip()\<close>, which removes such characters at both ends.
\<close>

definition py_isspace :: "char \<Rightarrow> bool" where
  "py_isspace c =
     (let n = (of_char c :: nat)
      in (9 \<le> n \<and> n \<le> 13) \<or> (28 \<le> n \<and> n \<le> 32) \<or> n = 133 \<or> n = 160)"

definition py_strip :: "string \<Rightarrow> string" where
  "py_strip s = rev (dropWhile py_isspace (rev (dropWhile py_isspace s)))"

section \<open>Computations with effects and exceptions\<close>

text \<open>
  A statement sequence of the script is a pair: the effects it performed, in order, and
  either the exception that ended it (\<open>Inl\<close>) or its value (\<open>Inr\<close>).
\<close>

type_synonym ('e, 'a) comp = "'e list \<times> (exc + 'a)"

definition ret :: "'a \<Rightarrow> ('e, 'a) comp" where
  "ret a = ([], Inr a)"

definition raise :: "exc \<Rightarrow> ('e, 'a) comp" where
  "raise x = ([], Inl x)"

definition emit :: "'e \<Rightarrow> ('e, unit) comp" where
  "emit e = ([e], Inr ())"

definition lift :: "exc + 'a \<Rightarrow> ('e, 'a) comp" where
  "lift r = ([], r)"

definition andthen :: "('e, 'a) comp \<Rightarrow> ('a \<Rightarrow> ('e, 'b) comp) \<Rightarrow> ('e, 'b) comp" where
  "andthen m f =
     (case m of
        (es, Inl x) \<Rightarrow> (es, Inl x)
      | (es, Inr a) \<Rightarrow> (case f a of (es', r) \<Rightarrow> (es @ es', r)))"

text \<open>
  \<^verbatim>\<open>try: m except <classes>: h\<close>: the handler runs when \<open>m\<close> ends with an exception of
  one of the classes; what \<open>m\<close> did before raising stays done.
\<close>

definition try_except ::
  "('e, 'a) comp \<Rightarrow> (exc \<Rightarrow> bool) \<Rightarrow> (exc \<Rightarrow> ('e, 'a) comp) \<Rightarrow> ('e, 'a) comp" where
  "try_except m caught h =
     (case m of
        (es, Inl x) \<Rightarrow>
          (if caught x then (case h x of (es', r) \<Rightarrow> (es @ es', r)) else (es, Inl x))
      | (es, Inr a) \<Rightarrow> (es, Inr a))"

section \<open>Operations on Python values\<close>

text \<open>
  \<^verbatim>\<open>key in x\<close> with a string on the left: key membership for a dict, element equality for
  a list, containment for a string, \<open>TypeError\<close> for every other value.
\<close>

fun py_in :: "string \<Rightarrow> json \<Rightarrow> exc + bool" where
  "py_in k (JObj kvs) = Inr (map_of kvs k \<noteq> None)"
| "py_in k (JArr xs) = Inr (JStr k \<in> set xs)"
| "py_in k (JStr s) = Inr (str_contains k s)"
| "py_in k _ = Inl TypeError"

text \<open>
  \<^verbatim>\<open>x[key]\<close> with a string key: the value or \<open>KeyError\<close> for a dict, \<open>TypeError\<close> for
  every other value (a list or a string cannot be indexed by a string).
\<close>

fun py_getitem :: "json \<Rightarrow> string \<Rightarrow> exc + json" where
  "py_getitem (JObj kvs) k = (case map_of kvs k of None \<Rightarrow> Inl KeyError | Some v \<Rightarrow> Inr v)"
| "py_getitem _ k = Inl TypeError"

text \<open>
  \<^verbatim>\<open>x[:100]\<close>: the first 100 items of a string or a list; every other value raises (a
  dict raises \<open>TypeError\<close> up to Python 3.11 and \<open>KeyError\<close> from 3.12 on; the script
  treats both alike).
\<close>

fun py_slice100 :: "json \<Rightarrow> exc + json" where
  "py_slice100 (JStr s) = Inr (JStr (take 100 s))"
| "py_slice100 (JArr xs) = Inr (JArr (take 100 xs))"
| "py_slice100 _ = Inl TypeError"

subsection \<open>Numbers\<close>

definition is_digit :: "char \<Rightarrow> bool" where
  "is_digit c = (let n = (of_char c :: nat) in 48 \<le> n \<and> n \<le> 57)"

definition digits_val :: "string \<Rightarrow> int" where
  "digits_val ds = foldl (\<lambda>a c. 10 * a + ((of_char c :: int) - 48)) 0 ds"

fun bitlen :: "nat \<Rightarrow> nat" where
  "bitlen n = (if n = 0 then 0 else Suc (bitlen (n div 2)))"

definition pow2 :: "int \<Rightarrow> rat" where
  "pow2 e = (if 0 \<le> e then 2 ^ nat e else 1 / 2 ^ nat (- e))"

definition pow10 :: "int \<Rightarrow> rat" where
  "pow10 e = (if 0 \<le> e then 10 ^ nat e else 1 / 10 ^ nat (- e))"

text \<open>The exponent \<open>e\<close> with \<open>2 ^ e \<le> q < 2 ^ (e + 1)\<close>, for \<open>q > 0\<close>.\<close>

definition floor_log2 :: "rat \<Rightarrow> int" where
  "floor_log2 q =
     (case quotient_of q of (a, b) \<Rightarrow>
        (let e0 = int (bitlen (nat a)) - int (bitlen (nat b))
         in if q < pow2 e0 then e0 - 1 else e0))"

definition round_half_even :: "rat \<Rightarrow> int" where
  "round_half_even x =
     (let f = \<lfloor>x\<rfloor>; r = x - of_int f
      in if r < 1 / 2 then f else if 1 / 2 < r then f + 1 else if even f then f else f + 1)"

text \<open>
  The binary64 number nearest to a rational, ties to even: 53 significant bits, exponents
  down to the subnormal range, and an infinity from \<open>2 ^ 1024\<close> on.
\<close>

definition round_double :: "rat \<Rightarrow> pyfloat" where
  "round_double q =
     (if q = 0 then Finite 0
      else
        (let a = \<bar>q\<bar>;
             e = max (floor_log2 a) (- 1022);
             ulp = pow2 (e - 52);
             v = of_int (round_half_even (a / ulp)) * ulp
         in if pow2 1024 \<le> v then (if q < 0 then NegInf else PosInf)
            else Finite (if q < 0 then - v else v)))"

text \<open>
  A run of digits in which single underscores may stand between two digits, as \<open>int\<close> and
  \<open>float\<close> accept it in a string: the digits read and the text left.
\<close>

fun digitpart_rest :: "string \<Rightarrow> string \<times> string" where
  "digitpart_rest (c # d # cs) =
     (if is_digit c then (case digitpart_rest (d # cs) of (ds, r) \<Rightarrow> (c # ds, r))
      else if c = CHR ''_'' \<and> is_digit d then digitpart_rest (d # cs)
      else ([], c # d # cs))"
| "digitpart_rest [c] = (if is_digit c then ([c], []) else ([], [c]))"
| "digitpart_rest [] = ([], [])"

definition digitpart :: "string \<Rightarrow> (string \<times> string) option" where
  "digitpart s =
     (case s of
        [] \<Rightarrow> None
      | c # cs \<Rightarrow> if is_digit c then Some (digitpart_rest s) else None)"

definition split_sign :: "string \<Rightarrow> bool \<times> string" where
  "split_sign s =
     (case s of
        [] \<Rightarrow> (False, s)
      | c # cs \<Rightarrow> if c = CHR ''-'' then (True, cs) else if c = CHR ''+'' then (False, cs) else (False, s))"

text \<open>\<^verbatim>\<open>int(s)\<close> for a string (base 10): \<open>None\<close> stands for \<open>ValueError\<close>.\<close>

definition int_of_str :: "string \<Rightarrow> int option" where
  "int_of_str s =
     (case split_sign (py_strip s) of (neg, t) \<Rightarrow>
        (case digitpart t of
           Some (ds, []) \<Rightarrow> Some (if neg then - digits_val ds else digits_val ds)
         | _ \<Rightarrow> None))"

definition lower :: "char \<Rightarrow> char" where
  "lower c = (let n = (of_char c :: nat) in if 65 \<le> n \<and> n \<le> 90 then char_of (n + 32) else c)"

text \<open>
  The exponent part of a float in a string: \<open>e\<close> or \<open>E\<close>, a sign, digits. The result is the
  exponent and the text left; \<open>None\<close> when an exponent starts and is malformed.
\<close>

definition float_exponent :: "string \<Rightarrow> (int \<times> string) option" where
  "float_exponent s =
     (case s of
        [] \<Rightarrow> Some (0, [])
      | c # cs \<Rightarrow>
          if c = CHR ''e'' \<or> c = CHR ''E'' then
            (case split_sign cs of (neg, t) \<Rightarrow>
               (case digitpart t of
                  None \<Rightarrow> None
                | Some (ds, r) \<Rightarrow> Some (if neg then - digits_val ds else digits_val ds, r)))
          else Some (0, s))"

text \<open>
  The unsigned decimal number of a float in a string: digits, a point, digits, with digits
  on one side of the point at least, then the exponent. The whole text must be used up.
\<close>

definition float_decimal :: "string \<Rightarrow> rat option" where
  "float_decimal s =
     (case digitpart_rest s of (ip, r1) \<Rightarrow>
        (case (case r1 of
                 [] \<Rightarrow> Some ([], r1)
               | c # cs \<Rightarrow>
                   if c = CHR ''.'' then
                     (case digitpart cs of
                        None \<Rightarrow> if ip = [] then None else Some ([], cs)
                      | Some (fp, r2) \<Rightarrow> Some (fp, r2))
                   else Some ([], r1)) of
           None \<Rightarrow> None
         | Some (fp, r2) \<Rightarrow>
             if ip = [] \<and> fp = [] then None
             else if ip \<noteq> [] \<and> \<not> is_digit (hd s) then None
             else
               (case float_exponent r2 of
                  Some (ex, []) \<Rightarrow>
                    Some (of_int (digits_val (ip @ fp)) * pow10 (ex - int (length fp)))
                | _ \<Rightarrow> None)))"

text \<open>\<^verbatim>\<open>float(s)\<close> for a string: \<open>None\<close> stands for \<open>ValueError\<close>.\<close>

definition float_of_str :: "string \<Rightarrow> pyfloat option" where
  "float_of_str s =
     (case split_sign (py_strip s) of (neg, t) \<Rightarrow>
        (let w = map lower t
         in if w = ''inf'' \<or> w = ''infinity'' then Some (if neg then NegInf else PosInf)
            else if w = ''nan'' then Some NaN
            else
              (case float_decimal t of
                 None \<Rightarrow> None
               | Some q \<Rightarrow> Some (round_double (if neg then - q else q)))))"

text \<open>\<^verbatim>\<open>int(x)\<close>: a float is cut towards zero.\<close>

fun py_int :: "json \<Rightarrow> exc + int" where
  "py_int (JInt n) = Inr n"
| "py_int (JBool b) = Inr (if b then 1 else 0)"
| "py_int (JFloat (Finite q)) = Inr (if 0 \<le> q then \<lfloor>q\<rfloor> else \<lceil>q\<rceil>)"
| "py_int (JFloat NaN) = Inl ValueError"
| "py_int (JFloat _) = Inl OverflowError"
| "py_int (JStr s) = (case int_of_str s of None \<Rightarrow> Inl ValueError | Some n \<Rightarrow> Inr n)"
| "py_int _ = Inl TypeError"

text \<open>\<^verbatim>\<open>float(x)\<close>: an int too large for a binary64 number raises \<open>OverflowError\<close>.\<close>

fun py_float :: "json \<Rightarrow> exc + pyfloat" where
  "py_float (JFloat f) = Inr f"
| "py_float (JInt n) =
     (case round_double (of_int n) of Finite v \<Rightarrow> Inr (Finite v) | _ \<Rightarrow> Inl OverflowError)"
| "py_float (JBool b) = Inr (Finite (if b then 1 else 0))"
| "py_float (JStr s) = (case float_of_str s of None \<Rightarrow> Inl ValueError | Some f \<Rightarrow> Inr f)"
| "py_float _ = Inl TypeError"

section \<open>The JSON decoder\<close>

text \<open>
  \<^verbatim>\<open>json.loads\<close> belongs to Python's standard library, not to the bridge. What the
  bridge does is stated below for every decoder: the functions of the script take the
  decoder as their argument \<open>loads\<close>, a function from the text to the decoded value, with
  \<open>None\<close> for \<open>JSONDecodeError\<close>. The decoder defined in this section is used to run
  the script on concrete frames. It follows the standard decoder on texts of 8-bit
  characters: the literals, numbers (an int when there is neither fraction nor exponent,
  a float otherwise), strings with their escapes, lists, and dicts in which the last value
  of a repeated key wins. An escape \<^verbatim>\<open>\uXXXX\<close> above \<^verbatim>\<open>\u00ff\<close> has no character in this
  model and is refused.
\<close>

definition dquote :: char where
  "dquote = CHR 0x22"

definition backslash :: char where
  "backslash = CHR 0x5C"

definition json_ws :: "char \<Rightarrow> bool" where
  "json_ws c = (c = CHR '' '' \<or> c = CHR 0x09 \<or> c = CHR 0x0A \<or> c = CHR 0x0D)"

definition skip_ws :: "string \<Rightarrow> string" where
  "skip_ws s = dropWhile json_ws s"

definition hex_val :: "char \<Rightarrow> nat option" where
  "hex_val c =
     (let n = (of_char c :: nat)
      in if 48 \<le> n \<and> n \<le> 57 then Some (n - 48)
         else if 65 \<le> n \<and> n \<le> 70 then Some (n - 55)
         else if 97 \<le> n \<and> n \<le> 102 then Some (n - 87)
         else None)"

definition hex4 :: "char \<Rightarrow> char \<Rightarrow> char \<Rightarrow> char \<Rightarrow> nat option" where
  "hex4 a b c d =
     (case (hex_val a, hex_val b, hex_val c, hex_val d) of
        (Some x, Some y, Some z, Some w) \<Rightarrow> Some (((x * 16 + y) * 16 + z) * 16 + w)
      | _ \<Rightarrow> None)"

definition unescape :: "char \<Rightarrow> char option" where
  "unescape e =
     (if e = dquote then Some dquote
      else if e = backslash then Some backslash
      else if e = CHR ''/'' then Some (CHR ''/'')
      else if e = CHR ''b'' then Some (CHR 0x08)
      else if e = CHR ''f'' then Some (CHR 0x0C)
      else if e = CHR ''n'' then Some (CHR 0x0A)
      else if e = CHR ''r'' then Some (CHR 0x0D)
      else if e = CHR ''t'' then Some (CHR 0x09)
      else None)"

definition cons_str :: "char \<Rightarrow> (string \<times> string) option \<Rightarrow> (string \<times> string) option" where
  "cons_str c r = (case r of None \<Rightarrow> None | Some (s, rest) \<Rightarrow> Some (c # s, rest))"

text \<open>The text after an opening quote: the decoded string and the text after the closing quote.\<close>

fun scan_string :: "string \<Rightarrow> (string \<times> string) option" where
  "scan_string [] = None"
| "scan_string (c # cs) =
     (if c = dquote then Some ([], cs)
      else if c = backslash then
        (case cs of
           [] \<Rightarrow> None
         | e # es \<Rightarrow>
             if e = CHR ''u'' then
               (case es of
                  h1 # h2 # h3 # h4 # rest \<Rightarrow>
                    (case hex4 h1 h2 h3 h4 of
                       None \<Rightarrow> None
                     | Some n \<Rightarrow> if n < 256 then cons_str (char_of n) (scan_string rest) else None)
                | _ \<Rightarrow> None)
             else
               (case unescape e of
                  None \<Rightarrow> None
                | Some ch \<Rightarrow> cons_str ch (scan_string es)))
      else if (of_char c :: nat) < 32 then None
      else cons_str c (scan_string cs))"

text \<open>
  A number at the start of the text, as the decoder's pattern
  \<^verbatim>\<open>(-?(?:0|[1-9][0-9]*))(\.[0-9]+)?([eE][-+]?[0-9]+)?\<close> matches it: the value and the text
  left.
\<close>

definition scan_number :: "string \<Rightarrow> (json \<times> string) option" where
  "scan_number s =
     (case (case s of [] \<Rightarrow> (False, s) | c # cs \<Rightarrow> if c = CHR ''-'' then (True, cs) else (False, s)) of
        (neg, s1) \<Rightarrow>
          (let ds = takeWhile is_digit s1
           in if ds = [] then None
              else
                (let ip = (if hd ds = CHR ''0'' then ''0'' else ds);
                     s2 = drop (length ip) s1;
                     fp = (case s2 of
                             [] \<Rightarrow> []
                           | c # cs \<Rightarrow> if c = CHR ''.'' then takeWhile is_digit cs else []);
                     s3 = (if fp = [] then s2 else drop (Suc (length fp)) s2);
                     ex = (case s3 of
                             [] \<Rightarrow> None
                           | c # cs \<Rightarrow>
                               if c = CHR ''e'' \<or> c = CHR ''E'' then
                                 (case split_sign cs of (eneg, t) \<Rightarrow>
                                    (let eds = takeWhile is_digit t
                                     in if eds = [] then None
                                        else Some (if eneg then - digits_val eds
                                                   else digits_val eds,
                                                   dropWhile is_digit t)))
                               else None)
                 in if fp = [] \<and> ex = None
                    then Some (JInt (if neg then - digits_val ip else digits_val ip), s2)
                    else
                      (let e = (case ex of None \<Rightarrow> 0 | Some (n, _) \<Rightarrow> n);
                           rest = (case ex of None \<Rightarrow> s3 | Some (_, r) \<Rightarrow> r);
                           q = of_int (digits_val (ip @ fp)) * pow10 (e - int (length fp))
                       in Some (JFloat (round_double (if neg then - q else q)), rest)))))"

fun dict_set :: "(string \<times> json) list \<Rightarrow> string \<Rightarrow> json \<Rightarrow> (string \<times> json) list" where
  "dict_set [] k v = [(k, v)]"
| "dict_set ((k', v') # kvs) k v =
     (if k' = k then (k, v) # kvs else (k', v') # dict_set kvs k v)"

text \<open>
  The value at the start of the text, with the text left. The first argument bounds the
  number of nested calls; \<open>json_loads\<close> starts with a bound that grows with the text.
\<close>

fun parse_value :: "nat \<Rightarrow> string \<Rightarrow> (json \<times> string) option"
  and parse_array :: "nat \<Rightarrow> json list \<Rightarrow> string \<Rightarrow> (json \<times> string) option"
  and parse_object :: "nat \<Rightarrow> (string \<times> json) list \<Rightarrow> string \<Rightarrow> (json \<times> string) option"
where
  "parse_value 0 s = None"
| "parse_value (Suc n) s =
     (case s of
        [] \<Rightarrow> None
      | c # cs \<Rightarrow>
          if c = dquote then
            (case scan_string cs of None \<Rightarrow> None | Some (str, rest) \<Rightarrow> Some (JStr str, rest))
          else if c = CHR ''{'' then
            (case skip_ws cs of
               [] \<Rightarrow> None
             | d # ds \<Rightarrow> if d = CHR ''}'' then Some (JObj [], ds) else parse_object n [] (d # ds))
          else if c = CHR ''['' then
            (case skip_ws cs of
               [] \<Rightarrow> None
             | d # ds \<Rightarrow> if d = CHR '']'' then Some (JArr [], ds) else parse_array n [] (d # ds))
          else if startswith s ''null'' then Some (JNull, drop 4 s)
          else if startswith s ''true'' then Some (JBool True, drop 4 s)
          else if startswith s ''false'' then Some (JBool False, drop 5 s)
          else
            (case scan_number s of
               Some r \<Rightarrow> Some r
             | None \<Rightarrow>
                 if startswith s ''NaN'' then Some (JFloat NaN, drop 3 s)
                 else if startswith s ''Infinity'' then Some (JFloat PosInf, drop 8 s)
                 else if startswith s ''-Infinity'' then Some (JFloat NegInf, drop 9 s)
                 else None))"
| "parse_array 0 acc s = None"
| "parse_array (Suc n) acc s =
     (case parse_value n s of
        None \<Rightarrow> None
      | Some (v, rest) \<Rightarrow>
          (case skip_ws rest of
             [] \<Rightarrow> None
           | c # cs \<Rightarrow>
               if c = CHR '']'' then Some (JArr (acc @ [v]), cs)
               else if c = CHR '','' then parse_array n (acc @ [v]) (skip_ws cs)
               else None))"
| "parse_object 0 acc s = None"
| "parse_object (Suc n) acc s =
     (case s of
        [] \<Rightarrow> None
      | c # cs \<Rightarrow>
          if c \<noteq> dquote then None
          else
            (case scan_string cs of
               None \<Rightarrow> None
             | Some (k, rest) \<Rightarrow>
                 (case skip_ws rest of
                    [] \<Rightarrow> None
                  | d # ds \<Rightarrow>
                      if d \<noteq> CHR '':'' then None
                      else
                        (case parse_value n (skip_ws ds) of
                           None \<Rightarrow> None
                         | Some (v, rest2) \<Rightarrow>
                             (case skip_ws rest2 of
                                [] \<Rightarrow> None
                              | e # es \<Rightarrow>
                                  if e = CHR ''}'' then Some (JObj (dict_set acc k v), es)
                                  else if e = CHR '','' then
                                    parse_object n (dict_set acc k v) (skip_ws es)
                                  else None)))))"

definition json_loads :: "string \<Rightarrow> json option" where
  "json_loads s =
     (case parse_value (2 * length s + 2) (skip_ws s) of
        None \<Rightarrow> None
      | Some (v, rest) \<Rightarrow> if skip_ws rest = [] then Some v else None)"

section \<open>The bridge\<close>

subsection \<open>Effects\<close>

text \<open>
  The point built by \<open>process_event\<close> (lines 57-62): the measurement name and the two tag
  values are passed on as they are, the two fields are floats, the time is an int.
\<close>

record point =
  measurement :: json
  tag_location :: json
  tag_device :: json
  field_temperature :: pyfloat
  field_humidity :: pyfloat
  time_ns :: int

text \<open>The messages printed by the script (the two lines of the connection banner are one).\<close>

datatype logmsg =
    ProcessingEvent
  | PrintMeasurement json
  | PrintTags json
  | PrintFields json
  | PrintTimestamp json
  | WritingToBucket
  | PrintPoint point
  | Written json json
  | JsonDecodeErrorMsg
  | ErrorProcessingEvent exc
  | Connecting
  | ConnectedMsg
  | EventReceived json
  | ValidSensorReading
  | NotSensorFormat
  | EventDataNotJson json
  | NoDataField
  | FailedToParseWrapper
  | ShuttingDown
  | ConnectionError
  | RetryingIn int

text \<open>
  What the script does to the outside: it prints, it writes a point to the database
  (\<open>Write\<close> stands for a call of \<^verbatim>\<open>write_api.write\<close> that returned), it sleeps.
\<close>

datatype effect = Log logmsg | Write point | Sleep int

definition writes :: "effect list \<Rightarrow> point list" where
  "writes es = concat (map (\<lambda>e. case e of Write p \<Rightarrow> [p] | _ \<Rightarrow> []) es)"

definition sleeps :: "effect list \<Rightarrow> int list" where
  "sleeps es = concat (map (\<lambda>e. case e of Sleep d \<Rightarrow> [d] | _ \<Rightarrow> []) es)"

definition logs :: "effect list \<Rightarrow> logmsg list" where
  "logs es = concat (map (\<lambda>e. case e of Log m \<Rightarrow> [m] | _ \<Rightarrow> []) es)"

subsection \<open>\<open>process_event\<close>, lines 41-79\<close>

text \<open>
  \<^verbatim>\<open>json.loads(x)\<close> as the script calls it: a value that is not a string raises
  \<open>TypeError\<close>, a string goes to the decoder.
\<close>

definition py_json_loads :: "(string \<Rightarrow> json option) \<Rightarrow> json \<Rightarrow> exc + json" where
  "py_json_loads loads x =
     (case x of
        JStr s \<Rightarrow> (case loads s of None \<Rightarrow> Inl JSONDecodeError | Some v \<Rightarrow> Inr v)
      | _ \<Rightarrow> Inl TypeError)"

text \<open>
  The body of the \<^verbatim>\<open>try\<close> (lines 44-70). \<open>write_ok\<close> tells whether
  \<^verbatim>\<open>write_api.write\<close> returns for a point or raises.
\<close>

definition process_event_body ::
  "(string \<Rightarrow> json option) \<Rightarrow> (point \<Rightarrow> bool) \<Rightarrow> json \<Rightarrow> (effect, unit) comp" where
  "process_event_body loads write_ok event_data =
     andthen (lift (py_json_loads loads event_data)) (\<lambda>data.
     andthen (emit (Log ProcessingEvent)) (\<lambda>_.
     andthen (lift (py_getitem data ''measurement'')) (\<lambda>m.
     andthen (emit (Log (PrintMeasurement m))) (\<lambda>_.
     andthen (lift (py_getitem data ''tags'')) (\<lambda>tags.
     andthen (emit (Log (PrintTags tags))) (\<lambda>_.
     andthen (lift (py_getitem data ''fields'')) (\<lambda>fields.
     andthen (emit (Log (PrintFields fields))) (\<lambda>_.
     andthen (lift (py_getitem data ''timestamp'')) (\<lambda>ts.
     andthen (emit (Log (PrintTimestamp ts))) (\<lambda>_.
     andthen (lift (py_int ts)) (\<lambda>secs.
     andthen (lift (py_getitem tags ''location'')) (\<lambda>loc.
     andthen (lift (py_getitem tags ''device'')) (\<lambda>dev.
     andthen (lift (py_getitem fields ''temperature'')) (\<lambda>tv.
     andthen (lift (py_float tv)) (\<lambda>temp.
     andthen (lift (py_getitem fields ''humidity'')) (\<lambda>hv.
     andthen (lift (py_float hv)) (\<lambda>hum.
     (let timestamp_ns = secs * 1000000000;
          pt = \<lparr>measurement = m, tag_location = loc, tag_device = dev,
                field_temperature = temp, field_humidity = hum, time_ns = timestamp_ns\<rparr>
      in andthen (emit (Log WritingToBucket)) (\<lambda>_.
         andthen (emit (Log (PrintPoint pt))) (\<lambda>_.
         andthen (if write_ok pt then emit (Write pt) else raise WriteError) (\<lambda>_.
         emit (Log (Written tv hv)))))))))))))))))))))))"

text \<open>
  The two handlers (lines 72-79): the first matching clause runs, and the second one
  catches every \<open>Exception\<close>, so that \<open>process_event\<close> never raises.
\<close>

definition process_event ::
  "(string \<Rightarrow> json option) \<Rightarrow> (point \<Rightarrow> bool) \<Rightarrow> json \<Rightarrow> (effect, unit) comp" where
  "process_event loads write_ok event_data =
     try_except (process_event_body loads write_ok event_data) (\<lambda>x. True)
       (\<lambda>x. if x = JSONDecodeError then emit (Log JsonDecodeErrorMsg)
            else emit (Log (ErrorProcessingEvent x)))"

subsection \<open>One payload, lines 120-148\<close>

text \<open>
  The inner \<^verbatim>\<open>try\<close> (lines 131-142) catches \<open>JSONDecodeError\<close> and \<open>TypeError\<close>, the
  outer one (lines 121-148) \<open>JSONDecodeError\<close> only. Line 128 stands between the two.
\<close>

definition handle_payload ::
  "(string \<Rightarrow> json option) \<Rightarrow> (point \<Rightarrow> bool) \<Rightarrow> string \<Rightarrow> (effect, unit) comp" where
  "handle_payload loads write_ok event_data =
     try_except
       (andthen (lift (py_json_loads loads (JStr event_data))) (\<lambda>wrapper.
        andthen (lift (py_in ''data'' wrapper)) (\<lambda>has_data.
        if has_data then
          andthen (lift (py_getitem wrapper ''data'')) (\<lambda>d.
          andthen (lift (py_slice100 d)) (\<lambda>shown.
          andthen (emit (Log (EventReceived shown))) (\<lambda>_.
          try_except
            (andthen (lift (py_json_loads loads d)) (\<lambda>sensor_data.
             andthen (lift (py_in ''measurement'' sensor_data)) (\<lambda>has_m.
             andthen (if has_m then lift (py_in ''fields'' sensor_data) else ret False) (\<lambda>ok.
             if ok then
               andthen (emit (Log ValidSensorReading)) (\<lambda>_. process_event loads write_ok d)
             else emit (Log NotSensorFormat)))))
            (\<lambda>x. x = JSONDecodeError \<or> x = TypeError)
            (\<lambda>x. emit (Log (EventDataNotJson d))))))
        else emit (Log NoDataField))))
       (\<lambda>x. x = JSONDecodeError)
       (\<lambda>x. emit (Log FailedToParseWrapper))"

subsection \<open>The frame decoder, lines 99-119\<close>

text \<open>Lines 112-117: the text after \<^verbatim>\<open>data: \<close> in the first line that starts with it.\<close>

fun find_event_data :: "string list \<Rightarrow> string option" where
  "find_event_data [] = None"
| "find_event_data (line # lines) =
     (if startswith line ''data: '' then Some (drop 6 line) else find_event_data lines)"

text \<open>
  Lines 109-119 for one message: \<open>handle\<close> stands for lines 120-148. A payload is handled
  when \<^verbatim>\<open>event_data\<close> is true for Python, that is neither \<open>None\<close> nor empty.
\<close>

definition process_message :: "(string \<Rightarrow> ('e, unit) comp) \<Rightarrow> string \<Rightarrow> ('e, unit) comp" where
  "process_message handle message =
     (if py_strip message \<noteq> [] then
        (case find_event_data (py_split [nl] message) of
           None \<Rightarrow> ret ()
         | Some event_data \<Rightarrow> if event_data \<noteq> [] then handle event_data else ret ())
      else ret ())"

fun process_messages :: "(string \<Rightarrow> ('e, unit) comp) \<Rightarrow> string list \<Rightarrow> ('e, unit) comp" where
  "process_messages handle [] = ret ()"
| "process_messages handle (m # ms) =
     andthen (process_message handle m) (\<lambda>_. process_messages handle ms)"

text \<open>Lines 101-119 for one chunk: the value is the new buffer.\<close>

definition process_chunk ::
  "(string \<Rightarrow> ('e, unit) comp) \<Rightarrow> string \<Rightarrow> string \<Rightarrow> ('e, string) comp" where
  "process_chunk handle buffer chunk =
     (if chunk \<noteq> [] then
        (let buffer = buffer @ chunk
         in if str_contains [nl, nl] buffer then
              (let messages = py_split [nl, nl] buffer
               in andthen (process_messages handle (butlast messages)) (\<lambda>_. ret (last messages)))
            else ret buffer)
      else ret buffer)"

text \<open>The \<^verbatim>\<open>for\<close> loop of line 100 over the chunks of one response.\<close>

fun stream_loop ::
  "(string \<Rightarrow> ('e, unit) comp) \<Rightarrow> string \<Rightarrow> string list \<Rightarrow> ('e, string) comp" where
  "stream_loop handle buffer [] = ret buffer"
| "stream_loop handle buffer (chunk # chunks) =
     andthen (process_chunk handle buffer chunk) (\<lambda>b. stream_loop handle b chunks)"

text \<open>
  The payloads the loop hands to lines 120-148, in order, when it starts with an empty
  buffer: the loop is run with a handler that only records its argument.
\<close>

definition extracted_payloads :: "string list \<Rightarrow> string list" where
  "extracted_payloads chunks = fst (stream_loop (\<lambda>p. emit p) [] chunks)"

subsection \<open>The supervisor, lines 82-160\<close>

text \<open>
  What the environment does in one round of the \<^verbatim>\<open>while\<close> loop: the request fails with
  an \<open>Exception\<close>, or is interrupted from the keyboard, or it succeeds and the response
  delivers chunks until it ends, breaks with an \<open>Exception\<close>, or is interrupted.
\<close>

datatype stream_end = EndOfStream | ReadError | Interrupted

datatype attempt = ConnectFailed | ConnectInterrupted | Connected "string list" stream_end

datatype outcome = Completed | Raised | KeyboardInterrupt

definition max_retry_delay :: int where
  "max_retry_delay = 60"

text \<open>Line 160: the next delay.\<close>

definition backoff :: "int \<Rightarrow> int" where
  "backoff d = min (d * 2) max_retry_delay"

text \<open>
  The body of the outer \<^verbatim>\<open>try\<close> (lines 88-148): its effects, the value of
  \<^verbatim>\<open>retry_delay\<close> after it, and how it ended. When a payload raises, the chunks that
  follow are not read.
\<close>

definition run_attempt ::
  "(string \<Rightarrow> json option) \<Rightarrow> (point \<Rightarrow> bool) \<Rightarrow> int \<Rightarrow> attempt \<Rightarrow> effect list \<times> int \<times> outcome" where
  "run_attempt loads write_ok retry_delay a =
     (case a of
        ConnectFailed \<Rightarrow> ([Log Connecting], retry_delay, Raised)
      | ConnectInterrupted \<Rightarrow> ([Log Connecting], retry_delay, KeyboardInterrupt)
      | Connected chunks e \<Rightarrow>
          (case stream_loop (handle_payload loads write_ok) [] chunks of
             (es, Inl x) \<Rightarrow> ([Log Connecting, Log ConnectedMsg] @ es, 5, Raised)
           | (es, Inr buffer) \<Rightarrow>
               ([Log Connecting, Log ConnectedMsg] @ es, 5,
                (case e of
                   EndOfStream \<Rightarrow> Completed
                 | ReadError \<Rightarrow> Raised
                 | Interrupted \<Rightarrow> KeyboardInterrupt))))"

text \<open>
  The \<^verbatim>\<open>while True\<close> loop, run against the rounds the environment provides. The result is
  the effects, the last value of \<^verbatim>\<open>retry_delay\<close>, and whether the loop was left
  (\<^verbatim>\<open>break\<close>); when the rounds are used up the loop is still running.
\<close>

fun main_loop ::
  "(string \<Rightarrow> json option) \<Rightarrow> (point \<Rightarrow> bool) \<Rightarrow> int \<Rightarrow> attempt list \<Rightarrow> effect list \<times> int \<times> bool" where
  "main_loop loads write_ok retry_delay [] = ([], retry_delay, False)"
| "main_loop loads write_ok retry_delay (a # as) =
     (case run_attempt loads write_ok retry_delay a of
        (es, d, Completed) \<Rightarrow>
          (case main_loop loads write_ok d as of (es', r) \<Rightarrow> (es @ es', r))
      | (es, d, Raised) \<Rightarrow>
          (case main_loop loads write_ok (backoff d) as of
             (es', r) \<Rightarrow> (es @ [Log ConnectionError, Log (RetryingIn d), Sleep d] @ es', r))
      | (es, d, KeyboardInterrupt) \<Rightarrow> (es @ [Log ShuttingDown], d, True))"

definition main :: "(string \<Rightarrow> json option) \<Rightarrow> (point \<Rightarrow> bool) \<Rightarrow> attempt list \<Rightarrow> effect list \<times> int \<times> bool" where
  "main loads write_ok rounds = main_loop loads write_ok 5 rounds"

subsection \<open>Example payloads\<close>

text \<open>
  A string as JSON writes it between double quotes: a backslash before every double quote
  and every backslash (enough for texts without control characters).
\<close>

definition json_escape :: "string \<Rightarrow> string" where
  "json_escape s =
     concat (map (\<lambda>c. if c = dquote \<or> c = backslash then [backslash, c] else [c]) s)"

text \<open>The envelope \<^verbatim>\<open>{"data":"..."}\<close> around a text.\<close>

definition envelope_text :: "string \<Rightarrow> string" where
  \<open>envelope_text d = ''{"data":"'' @ json_escape d @ ''"}''\<close>

definition reading_text :: string where
  \<open>reading_text = ''{"measurement":"env","tags":{"location":"lab","device":"d1"},"fields":{"temperature":21.5,"humidity":40.2},"timestamp":1700000000}''\<close>


text \<open>One complete frame: a \<^verbatim>\<open>data: \<close> line with the envelope of the reading, and the delimiter.\<close>

definition scenario_frame :: string where
  "scenario_frame = ''data: '' @ envelope_text reading_text @ [nl, nl]"

section \<open>Properties\<close>

subsection \<open>Sequencing\<close>

lemma andthen_ret [simp]: "andthen (ret a) f = f a"
  by (cases "f a") (simp add: andthen_def ret_def)

lemma andthen_ret_right [simp]: "andthen m ret = m"
  by (cases m) (auto simp: andthen_def ret_def split: sum.splits)

lemma andthen_ret_unit [simp]: "andthen m (\<lambda>_. ret ()) = m"
  by (cases m) (auto simp: andthen_def ret_def split: sum.splits)

lemma andthen_assoc: "andthen (andthen m f) g = andthen m (\<lambda>a. andthen (f a) g)"
  by (cases m) (auto simp: andthen_def split: sum.splits prod.splits)

lemma py_split_ne [simp]: "py_split sep s \<noteq> []"
  by (induction sep s rule: py_split.induct) (auto split: list.splits)

lemma py_split_single: "py_split sep s = [p] \<Longrightarrow> p = s"
  by (induction sep s arbitrary: p rule: py_split.induct) (auto split: list.splits if_splits)

lemma py_split_no_sep: "\<not> str_contains sep s \<Longrightarrow> py_split sep s = [s]"
  by (induction s) (auto split: list.splits)

lemma short_no_sep: "length s < length sep \<Longrightarrow> \<not> str_contains sep s"
  by (induction s) (auto dest: prefix_length_le)

lemma last_no_sep: "sep \<noteq> [] \<Longrightarrow> \<not> str_contains sep (last (py_split sep s))"
proof (induction sep s rule: py_split.induct)
  case (1 sep)
  then show ?case by simp
next
  case (2 sep c cs)
  show ?case
  proof (cases "prefix sep (c # cs)")
    case True
    with 2 show ?thesis by simp
  next
    case False
    obtain p ps where sp: "py_split sep cs = p # ps"
      by (cases "py_split sep cs") auto
    show ?thesis
    proof (cases ps)
      case Nil
      with sp have "p = cs" by (simp add: py_split_single)
      with 2 False sp Nil show ?thesis by auto
    next
      case (Cons q qs)
      with 2 False sp show ?thesis by auto
    qed
  qed
qed

lemma drop_append_le: "n \<le> length xs \<Longrightarrow> drop n (xs @ ys) = drop n xs @ ys"
  by simp

lemma py_split_append:
  "sep \<noteq> [] \<Longrightarrow>
   py_split sep (a @ b) = butlast (py_split sep a) @ py_split sep (last (py_split sep a) @ b)"
proof (induction sep a rule: py_split.induct)
  case (1 sep)
  then show ?case by simp
next
  case (2 sep c cs)
  show ?case
  proof (cases "prefix sep (c # cs)")
    case True
    then have pab: "prefix sep (c # cs @ b)" by (metis prefix_prefix append_Cons)
    from True have "length sep \<le> length (c # cs)" by (rule prefix_length_le)
    then have d: "drop (length sep) (c # cs @ b) = drop (length sep) (c # cs) @ b"
      using drop_append_le [of "length sep" "c # cs" b] by simp
    have "py_split sep ((c # cs) @ b) = [] # py_split sep (drop (length sep) (c # cs) @ b)"
      using pab "2.prems" d by simp
    also have "\<dots> = [] # (butlast (py_split sep (drop (length sep) (c # cs))) @
        py_split sep (last (py_split sep (drop (length sep) (c # cs))) @ b))"
      using "2.IH"(1) True "2.prems" by simp
    also have "\<dots> = butlast (py_split sep (c # cs)) @ py_split sep (last (py_split sep (c # cs)) @ b)"
      using True "2.prems" by simp
    finally show ?thesis .
  next
    case False
    show ?thesis
    proof (cases "prefix sep ((c # cs) @ b)")
      case True
      with False have "length (c # cs) < length sep"
        by (metis not_le_imp_less prefix_def take_all_iff prefix_length_prefix)
      then have "py_split sep (c # cs) = [c # cs]"
        by (intro py_split_no_sep short_no_sep)
      then show ?thesis by simp
    next
      case nb: False
      obtain p ps where sp: "py_split sep cs = p # ps"
        by (cases "py_split sep cs") auto
      show ?thesis
      proof (cases ps)
        case Nil
        with sp have "p = cs" by (simp add: py_split_single)
        with False nb sp Nil show ?thesis by simp
      next
        case (Cons q qs)
        with 2 False nb sp show ?thesis by simp
      qed
    qed
  qed
qed


lemma process_messages_append:
  "process_messages h (xs @ ys) = andthen (process_messages h xs) (\<lambda>_. process_messages h ys)"
  by (induction xs) (simp_all add: andthen_assoc)

lemma process_chunk_eq:
  assumes "\<not> str_contains [nl, nl] buffer"
  shows "process_chunk h buffer chunk =
         andthen (process_messages h (butlast (py_split [nl, nl] (buffer @ chunk))))
           (\<lambda>_. ret (last (py_split [nl, nl] (buffer @ chunk))))"
proof (cases "chunk = []")
  case True
  with assms show ?thesis by (simp add: process_chunk_def py_split_no_sep)
next
  case False
  then show ?thesis
    by (cases "str_contains [nl, nl] (buffer @ chunk)")
       (simp_all add: process_chunk_def py_split_no_sep Let_def)
qed

lemma stream_loop_eq:
  "\<not> str_contains [nl, nl] buffer \<Longrightarrow>
   stream_loop h buffer chunks =
   andthen (process_messages h (butlast (py_split [nl, nl] (buffer @ concat chunks))))
     (\<lambda>_. ret (last (py_split [nl, nl] (buffer @ concat chunks))))"
proof (induction chunks arbitrary: buffer)
  case Nil
  then show ?case by (simp add: py_split_no_sep)
next
  case (Cons c cs)
  let ?S1 = "py_split [nl, nl] (buffer @ c)"
  let ?S2 = "py_split [nl, nl] (last ?S1 @ concat cs)"
  have ns: "\<not> str_contains [nl, nl] (last ?S1)" by (rule last_no_sep) simp
  have S: "py_split [nl, nl] (buffer @ concat (c # cs)) = butlast ?S1 @ ?S2"
    using py_split_append [of "[nl, nl]" "buffer @ c" "concat cs"] by simp
  have "stream_loop h buffer (c # cs) =
        andthen (process_messages h (butlast ?S1)) (\<lambda>_. stream_loop h (last ?S1) cs)"
    using Cons.prems by (simp add: process_chunk_eq andthen_assoc)
  also have "\<dots> = andthen (process_messages h (butlast ?S1))
        (\<lambda>_. andthen (process_messages h (butlast ?S2)) (\<lambda>_. ret (last ?S2)))"
    by (simp only: Cons.IH [OF ns])
  also have "\<dots> = andthen (process_messages h (butlast ?S1 @ butlast ?S2)) (\<lambda>_. ret (last ?S2))"
    by (simp add: process_messages_append andthen_assoc)
  also have "\<dots> = andthen (process_messages h (butlast (butlast ?S1 @ ?S2)))
        (\<lambda>_. ret (last (butlast ?S1 @ ?S2)))"
    by (simp add: butlast_append)
  finally show ?case by (simp only: S)
qed

lemma stream_loop_concat:
  "concat chunks1 = concat chunks2 \<Longrightarrow> stream_loop h [] chunks1 = stream_loop h [] chunks2"
  by (simp add: stream_loop_eq)

lemma py_split_join:
  "sep \<noteq> [] \<Longrightarrow>
   concat (map (\<lambda>m. m @ sep) (butlast (py_split sep s))) @ last (py_split sep s) = s"
proof (induction sep s rule: py_split.induct)
  case (1 sep)
  then show ?case by simp
next
  case (2 sep c cs)
  show ?case
  proof (cases "prefix sep (c # cs)")
    case True
    then have "sep @ drop (length sep) (c # cs) = c # cs"
      by (metis append_eq_conv_conj prefix_def)
    with 2 True show ?thesis by simp
  next
    case False
    obtain p ps where sp: "py_split sep cs = p # ps"
      by (cases "py_split sep cs") auto
    with 2 False show ?thesis by (cases ps) auto
  qed
qed

lemma andthen_ret_value:
  "andthen m (\<lambda>_. ret b) = (es, Inr b') \<Longrightarrow> b' = b"
  by (cases m) (auto simp: andthen_def ret_def split: sum.splits)

subsection \<open>The frame decoder\<close>

text \<open>
  Claim C2. Chunk-size invariance of the frame decoder: two ways of cutting the same input
  into chunks give the same payloads in the same order. It holds for chunks of any size,
  empty ones too, and for the whole loop with any handler in place of lines 120-148: the
  effects and the result of the loop depend on the concatenation of the chunks only.
\<close>

theorem chunk_invariance:
  assumes "concat chunks1 = concat chunks2"
  shows "extracted_payloads chunks1 = extracted_payloads chunks2
         \<and> stream_loop handle [] chunks1 = stream_loop handle [] chunks2"
  using assms by (simp add: extracted_payloads_def stream_loop_concat [of chunks1 chunks2])

theorem chunk_invariance_witness:
  "concat [''data: a'', [nl], [nl]] = concat [''da'', ''ta: a'' @ [nl, nl]]
   \<and> extracted_payloads [''data: a'', [nl], [nl]] = extracted_payloads [''da'', ''ta: a'' @ [nl, nl]]"
proof -
  have h: "concat [''data: a'', [nl], [nl]] = concat [''da'', ''ta: a'' @ [nl, nl]]"
    by simp
  from chunk_invariance [OF h, THEN conjunct1] h show ?thesis
    by simp
qed

lemma stream_loop_buffer:
  assumes "stream_loop handle [] chunks = (es, Inr buffer)"
  shows "buffer = last (py_split [nl, nl] (concat chunks))"
proof -
  have "stream_loop handle [] chunks =
        andthen (process_messages handle (butlast (py_split [nl, nl] (concat chunks))))
          (\<lambda>_. ret (last (py_split [nl, nl] (concat chunks))))"
    using stream_loop_eq [of "[]" handle chunks] by simp
  with assms show ?thesis by (metis andthen_ret_value)
qed

lemma run_attempt_tail:
  assumes s: "stream_loop (handle_payload loads write_ok) [] chunks = (es, Inr buffer)"
    and t: "\<not> str_contains [nl, nl] (buffer @ t)"
  shows "run_attempt loads write_ok d (Connected (chunks @ [t]) e) =
         run_attempt loads write_ok d (Connected chunks e)"
proof -
  let ?h = "handle_payload loads write_ok"
  let ?S = "py_split [nl, nl] (concat chunks)"
  have b: "buffer = last ?S" using s by (rule stream_loop_buffer)
  have "py_split [nl, nl] (concat (chunks @ [t])) = butlast ?S @ py_split [nl, nl] (last ?S @ t)"
    using py_split_append [of "[nl, nl]" "concat chunks" t] by simp
  also have "\<dots> = butlast ?S @ [buffer @ t]"
    using t b by (simp add: py_split_no_sep)
  finally have S': "py_split [nl, nl] (concat (chunks @ [t])) = butlast ?S @ [buffer @ t]" .
  have e1: "stream_loop ?h [] chunks =
        andthen (process_messages ?h (butlast ?S)) (\<lambda>_. ret (last ?S))"
    using stream_loop_eq [of "[]" ?h chunks] by simp
  have e2: "stream_loop ?h [] (chunks @ [t]) =
        andthen (process_messages ?h (butlast ?S)) (\<lambda>_. ret (buffer @ t))"
    using stream_loop_eq [of "[]" ?h "chunks @ [t]"] S' by simp
  obtain ms r where pm: "process_messages ?h (butlast ?S) = (ms, r)"
    by (cases "process_messages ?h (butlast ?S)")
  from s e1 pm have r: "r = Inr ()" and ms: "ms = es"
    by (auto simp: andthen_def ret_def split: sum.splits)
  from e2 pm r ms have "stream_loop ?h [] (chunks @ [t]) = (es, Inr (buffer @ t))"
    by (simp add: andthen_def ret_def)
  with s show ?thesis by (simp add: run_attempt_def)
qed

text \<open>
  Claim C8. While a connection is read without an exception, the buffer after any number
  of chunks is the last piece of the input received so far, cut at the delimiters
  \<^verbatim>\<open>\n\n\<close> that \<open>split\<close> finds from the left: it holds no delimiter, and the input
  is the complete frames, each followed by its delimiter, followed by the buffer, so
  nothing is lost but what went into a complete frame. (In \<^verbatim>\<open>a\n\n\n\<close> the delimiter
  found is the first pair of line breaks, and the third line break is the buffer.) What
  is left in the buffer when the stream ends is dropped: a last chunk that completes no
  frame changes nothing in the run, neither in this round nor in the rounds after the
  reconnection, which start with an empty buffer.
\<close>

theorem buffer_invariant:
  assumes "stream_loop (handle_payload loads write_ok) [] chunks = (es, Inr buffer)"
  shows "buffer = last (py_split [nl, nl] (concat chunks))
         \<and> \<not> str_contains [nl, nl] buffer
         \<and> concat (map (\<lambda>m. m @ [nl, nl]) (butlast (py_split [nl, nl] (concat chunks)))) @ buffer
             = concat chunks
         \<and> (\<not> str_contains [nl, nl] (buffer @ t) \<longrightarrow>
              main_loop loads write_ok d (Connected (chunks @ [t]) e # rounds) =
              main_loop loads write_ok d (Connected chunks e # rounds))"
proof -
  have b: "buffer = last (py_split [nl, nl] (concat chunks))"
    using assms by (rule stream_loop_buffer)
  have n: "\<not> str_contains [nl, nl] buffer"
    unfolding b by (rule last_no_sep) simp
  have j: "concat (map (\<lambda>m. m @ [nl, nl]) (butlast (py_split [nl, nl] (concat chunks)))) @ buffer
             = concat chunks"
    unfolding b by (rule py_split_join) simp
  have m: "main_loop loads write_ok d (Connected (chunks @ [t]) e # rounds) =
           main_loop loads write_ok d (Connected chunks e # rounds)"
    if "\<not> str_contains [nl, nl] (buffer @ t)"
    using run_attempt_tail [OF assms that] by simp
  from b n j m show ?thesis by blast
qed


theorem buffer_invariant_witness:
  "stream_loop (handle_payload (\<lambda>_. None) (\<lambda>_. True)) [] [''data: x'' @ [nl], [nl], ''da'']
     = ([Log FailedToParseWrapper], Inr ''da'')
   \<and> \<not> str_contains [nl, nl] (''da'' @ ''ta: y'')
   \<and> last (py_split [nl, nl] (concat [''data: x'' @ [nl], [nl], ''da''])) = ''da''
   \<and> main_loop (\<lambda>_. None) (\<lambda>_. True) 5
        [Connected ([''data: x'' @ [nl], [nl], ''da''] @ [''ta: y'']) EndOfStream] =
      main_loop (\<lambda>_. None) (\<lambda>_. True) 5
        [Connected [''data: x'' @ [nl], [nl], ''da''] EndOfStream]"
proof -
  have h: "stream_loop (handle_payload (\<lambda>_. None) (\<lambda>_. True)) [] [''data: x'' @ [nl], [nl], ''da'']
     = ([Log FailedToParseWrapper], Inr ''da'')"
    by (simp add: process_chunk_def process_message_def py_strip_def py_isspace_def
        startswith_def handle_payload_def py_json_loads_def try_except_def andthen_def
        lift_def emit_def ret_def nl_def)
  have t: "\<not> str_contains [nl, nl] (''da'' @ ''ta: y'')"
    by (simp add: nl_def)
  from buffer_invariant [OF h, of "''ta: y''" 5 EndOfStream "[]"] t h show ?thesis
    by simp
qed

lemma find_event_data_None:
  "find_event_data lines = None \<longleftrightarrow> (\<forall>l\<in>set lines. \<not> startswith l ''data: '')"
  by (induction lines) auto

lemma find_event_data_first:
  "\<forall>l\<in>set pre. \<not> startswith l ''data: '' \<Longrightarrow> startswith line ''data: '' \<Longrightarrow>
   find_event_data (pre @ line # post) = Some (drop 6 line)"
  by (induction pre) auto

lemma py_split_set: "l \<in> set (py_split sep s) \<Longrightarrow> set l \<subseteq> set s"
proof (induction sep s arbitrary: l rule: py_split.induct)
  case (1 sep)
  then show ?case by simp
next
  case (2 sep c cs)
  show ?case
  proof (cases "sep \<noteq> [] \<and> prefix sep (c # cs)")
    case True
    with 2 have "l = [] \<or> set l \<subseteq> set (drop (length sep) (c # cs))" by auto
    then show ?thesis
    proof
      assume "l = []"
      then show ?thesis by simp
    next
      assume "set l \<subseteq> set (drop (length sep) (c # cs))"
      then show ?thesis by (rule order_trans) (rule set_drop_subset)
    qed
  next
    case False
    obtain p ps where sp: "py_split sep cs = p # ps"
      by (cases "py_split sep cs") auto
    with 2 False have "l = c # p \<or> l \<in> set ps" by auto
    moreover have "set p \<subseteq> set cs" using "2.IH"(2) [of p] False sp by auto
    moreover have "l \<in> set ps \<Longrightarrow> set l \<subseteq> set cs" using "2.IH"(2) [of l] False sp by auto
    ultimately show ?thesis by auto
  qed
qed

lemma in_set_dropWhile: "x \<in> set xs \<Longrightarrow> \<not> P x \<Longrightarrow> x \<in> set (dropWhile P xs)"
  by (induction xs) auto

lemma py_strip_nonempty: "c \<in> set s \<Longrightarrow> \<not> py_isspace c \<Longrightarrow> py_strip s \<noteq> []"
proof -
  assume "c \<in> set s" "\<not> py_isspace c"
  then have "c \<in> set (dropWhile py_isspace (rev (dropWhile py_isspace s)))"
    by (simp add: in_set_dropWhile)
  then have "dropWhile py_isspace (rev (dropWhile py_isspace s)) \<noteq> []"
    by (metis empty_iff list.set(1))
  then show ?thesis by (simp add: py_strip_def)
qed

lemma data_line_strip:
  assumes "''data: '' @ r \<in> set (py_split [nl] message)"
  shows "py_strip message \<noteq> []"
proof -
  have "CHR ''d'' \<in> set message" using py_split_set [OF assms] by auto
  moreover have "\<not> py_isspace (CHR ''d'')" by (simp add: py_isspace_def)
  ultimately show ?thesis by (rule py_strip_nonempty)
qed

lemma process_message_no_data:
  "\<forall>l\<in>set (py_split [nl] message). \<not> startswith l ''data: '' \<Longrightarrow>
   process_message handle message = ret ()"
  by (simp add: process_message_def find_event_data_None [THEN iffD2])

lemma process_message_data:
  assumes "py_split [nl] message = pre @ (''data: '' @ r) # post"
    and "\<forall>l\<in>set pre. \<not> startswith l ''data: ''"
  shows "process_message handle message = (if r = [] then ret () else handle r)"
proof -
  have "''data: '' @ r \<in> set (py_split [nl] message)" using assms(1) by simp
  then have "py_strip message \<noteq> []" by (rule data_line_strip)
  moreover have "find_event_data (pre @ (''data: '' @ r) # post) = Some (drop 6 (''data: '' @ r))"
    using assms(2) by (rule find_event_data_first) (simp add: startswith_def)
  then have "find_event_data (py_split [nl] message) = Some r"
    using assms(1) by simp
  ultimately show ?thesis by (simp add: process_message_def)
qed


text \<open>
  Claim C6. The payload of a frame: when no line of the frame starts with \<^verbatim>\<open>data: \<close>,
  nothing is extracted and nothing is handled; otherwise \<^verbatim>\<open>event_data\<close> is the text
  after the prefix in the first such line, whatever the other lines are, and this is the
  payload handed to lines 120-148 (unless it is empty, see C9).
\<close>

theorem frame_payload:
  "((\<forall>l\<in>set (py_split [nl] message). \<not> startswith l ''data: '') \<longrightarrow>
      find_event_data (py_split [nl] message) = None
      \<and> process_message handle message = ret ())
   \<and> (py_split [nl] message = pre @ (''data: '' @ r) # post
        \<and> (\<forall>l\<in>set pre. \<not> startswith l ''data: '') \<longrightarrow>
      find_event_data (py_split [nl] message) = Some r
      \<and> process_message handle message = (if r = [] then ret () else handle r))"
proof (intro conjI impI)
  assume a: "\<forall>l\<in>set (py_split [nl] message). \<not> startswith l ''data: ''"
  then show "find_event_data (py_split [nl] message) = None"
    by (simp add: find_event_data_None)
  from a show "process_message handle message = ret ()"
    by (rule process_message_no_data)
next
  assume a: "py_split [nl] message = pre @ (''data: '' @ r) # post
        \<and> (\<forall>l\<in>set pre. \<not> startswith l ''data: '')"
  then have a1: "py_split [nl] message = pre @ (''data: '' @ r) # post"
    and a2: "\<forall>l\<in>set pre. \<not> startswith l ''data: ''"
    by blast+
  have "find_event_data (pre @ (''data: '' @ r) # post) = Some (drop 6 (''data: '' @ r))"
    using a2 by (rule find_event_data_first) (simp add: startswith_def)
  with a1 show "find_event_data (py_split [nl] message) = Some r" by simp
  from a1 a2 show "process_message handle message = (if r = [] then ret () else handle r)"
    by (rule process_message_data)
qed

theorem frame_payload_witness:
  "py_split [nl] ''event: e'' = [''event: e'']
   \<and> \<not> startswith ''event: e'' ''data: ''
   \<and> process_message (\<lambda>p. emit p) ''event: e'' = ([], Inr ())
   \<and> py_split [nl] (''id: 1'' @ [nl] @ ''data: x'' @ [nl] @ ''data: y'')
        = [''id: 1''] @ (''data: '' @ ''x'') # [''data: y'']
   \<and> \<not> startswith ''id: 1'' ''data: ''
   \<and> process_message (\<lambda>p. emit p) (''id: 1'' @ [nl] @ ''data: x'' @ [nl] @ ''data: y'')
        = ([''x''], Inr ())"
proof -
  have a: "\<forall>l\<in>set (py_split [nl] ''event: e''). \<not> startswith l ''data: ''"
    by (simp add: nl_def startswith_def)
  have b: "py_split [nl] (''id: 1'' @ [nl] @ ''data: x'' @ [nl] @ ''data: y'')
        = [''id: 1''] @ (''data: '' @ ''x'') # [''data: y'']"
    by (simp add: nl_def)
  have c: "\<forall>l\<in>set [''id: 1'']. \<not> startswith l ''data: ''"
    by (simp add: startswith_def)
  from frame_payload [of "''event: e''" "\<lambda>p. emit p" "[]" "[]" "[]"] a
  have "process_message (\<lambda>p. emit p) ''event: e'' = ([], Inr ())"
    by (simp add: ret_def)
  moreover from frame_payload [of "''id: 1'' @ [nl] @ ''data: x'' @ [nl] @ ''data: y''"
      "\<lambda>p. emit p" "[''id: 1'']" "''x''" "[''data: y'']"] b c
  have "process_message (\<lambda>p. emit p) (''id: 1'' @ [nl] @ ''data: x'' @ [nl] @ ''data: y'')
        = ([''x''], Inr ())"
    by (simp add: emit_def)
  moreover have "py_split [nl] ''event: e'' = [''event: e'']"
    by (simp add: nl_def)
  moreover have "\<not> startswith ''event: e'' ''data: ''" "\<not> startswith ''id: 1'' ''data: ''"
    by (simp_all add: startswith_def)
  ultimately show ?thesis using b by blast
qed

text \<open>
  Claim C9. A frame whose first \<^verbatim>\<open>data: \<close> line has nothing after the prefix:
  \<^verbatim>\<open>event_data\<close> is the empty string, which is false for Python, so that lines 120-148
  do not run, exactly as for a frame with no such line (even when a later line of the
  frame carries data).
\<close>

theorem empty_data_line:
  assumes "py_split [nl] message = pre @ ''data: '' # post"
    and "\<forall>l\<in>set pre. \<not> startswith l ''data: ''"
  shows "find_event_data (py_split [nl] message) = Some []
         \<and> process_message handle message = ret ()
         \<and> ((\<forall>l\<in>set (py_split [nl] other). \<not> startswith l ''data: '') \<longrightarrow>
              process_message handle other = process_message handle message)"
proof -
  have s: "py_split [nl] message = pre @ (''data: '' @ []) # post"
    using assms(1) by simp
  have "find_event_data (pre @ ''data: '' # post) = Some (drop 6 ''data: '')"
    using assms(2) by (rule find_event_data_first) (simp add: startswith_def)
  then have f: "find_event_data (py_split [nl] message) = Some []"
    using assms(1) by simp
  have p: "process_message handle message = ret ()"
    using process_message_data [OF s assms(2), of handle] by simp
  from f p show ?thesis by (simp add: process_message_no_data)
qed

theorem empty_data_line_witness:
  "py_split [nl] (''data: '' @ [nl] @ ''data: x'') = [] @ ''data: '' # [''data: x'']
   \<and> process_message (\<lambda>p. emit p) (''data: '' @ [nl] @ ''data: x'') = ([], Inr ())
   \<and> stream_loop (\<lambda>p. emit p) [] [''data: '' @ [nl, nl]] = ([], Inr [])"
proof -
  have a: "py_split [nl] (''data: '' @ [nl] @ ''data: x'') = [] @ ''data: '' # [''data: x'']"
    by (simp add: nl_def)
  have b: "\<forall>l\<in>set ([] :: string list). \<not> startswith l ''data: ''"
    by simp
  have c: "stream_loop (\<lambda>p. emit p) [] [''data: '' @ [nl, nl]] = ([], Inr [])"
    by (simp add: process_chunk_def process_message_def py_strip_def py_isspace_def
        startswith_def andthen_def ret_def nl_def)
  from empty_data_line [OF a b, of "\<lambda>p. emit p" "[]", THEN conjunct2, THEN conjunct1] a b c
  show ?thesis by (simp add: ret_def)
qed

subsection \<open>The supervisor\<close>

lemma sleeps_append [simp]: "sleeps (a @ b) = sleeps a @ sleeps b"
  by (simp add: sleeps_def)

lemma sleeps_Cons [simp]:
  "sleeps (Sleep d # es) = d # sleeps es"
  "sleeps (Log m # es) = sleeps es"
  "sleeps (Write p # es) = sleeps es"
  "sleeps [] = []"
  by (simp_all add: sleeps_def)

lemma main_loop_ConnectFailed:
  "main_loop loads write_ok d (ConnectFailed # rounds) =
   (case main_loop loads write_ok (backoff d) rounds of
      (es', r) \<Rightarrow> ([Log Connecting, Log ConnectionError, Log (RetryingIn d), Sleep d] @ es', r))"
  by (simp add: run_attempt_def)

lemma main_loop_fails:
  "sleeps (fst (main_loop loads write_ok d (replicate k ConnectFailed @ rounds))) =
   map (\<lambda>i. (backoff ^^ i) d) [0..<k] @
   sleeps (fst (main_loop loads write_ok ((backoff ^^ k) d) rounds))"
proof (induction k arbitrary: d)
  case 0
  then show ?case by simp
next
  case (Suc k)
  have m: "map (\<lambda>i. (backoff ^^ i) d) [0..<Suc k] = d # map (\<lambda>i. (backoff ^^ i) (backoff d)) [0..<k]"
    by (simp add: upt_conv_Cons map_Suc_upt [symmetric] funpow_swap1 del: upt_Suc)
  have "main_loop loads write_ok d (replicate (Suc k) ConnectFailed @ rounds) =
        (case main_loop loads write_ok (backoff d) (replicate k ConnectFailed @ rounds) of
           (es', r) \<Rightarrow> ([Log Connecting, Log ConnectionError, Log (RetryingIn d), Sleep d] @ es', r))"
    by (simp only: replicate_Suc append_Cons main_loop_ConnectFailed)
  then have "sleeps (fst (main_loop loads write_ok d (replicate (Suc k) ConnectFailed @ rounds))) =
        d # sleeps (fst (main_loop loads write_ok (backoff d) (replicate k ConnectFailed @ rounds)))"
    by (simp del: main_loop.simps replicate_Suc split: prod.splits)
  also have "\<dots> = d # map (\<lambda>i. (backoff ^^ i) (backoff d)) [0..<k] @
        sleeps (fst (main_loop loads write_ok ((backoff ^^ k) (backoff d)) rounds))"
    by (simp only: Suc.IH)
  finally show ?case
    unfolding m by (simp add: funpow_swap1 del: upt_Suc)
qed

lemma backoff_closed: "(backoff ^^ i) 5 = min (5 * 2 ^ i) 60"
  by (induction i) (auto simp: backoff_def max_retry_delay_def)

lemma backoff_bounds: "5 \<le> d \<Longrightarrow> d \<le> 60 \<Longrightarrow> 5 \<le> backoff d \<and> backoff d \<le> 60 \<and> d \<le> backoff d"
  by (auto simp: backoff_def max_retry_delay_def)

lemma backoff_iter_bounds:
  "5 \<le> d \<Longrightarrow> d \<le> 60 \<Longrightarrow> 5 \<le> (backoff ^^ i) d \<and> (backoff ^^ i) d \<le> 60"
  by (induction i) (auto simp: backoff_bounds)

lemma backoff_sorted:
  assumes "5 \<le> d" "d \<le> 60"
  shows "sorted (map (\<lambda>i. (backoff ^^ i) d) [0..<k])"
proof -
  have step: "(backoff ^^ i) d \<le> (backoff ^^ Suc i) d" for i
    using backoff_iter_bounds [OF assms, of i] backoff_bounds by simp
  have "(backoff ^^ i) d \<le> (backoff ^^ j) d" if "i \<le> j" for i j
    using lift_Suc_mono_le [of "\<lambda>i. (backoff ^^ i) d" i j] step that by simp
  then show ?thesis by (auto simp: sorted_iff_nth_mono)
qed

lemma main_loop_delay_bounds:
  "5 \<le> d0 \<Longrightarrow> d0 \<le> 60 \<Longrightarrow> main_loop loads write_ok d0 rounds = (es, d, b) \<Longrightarrow> 5 \<le> d \<and> d \<le> 60"
proof (induction rounds arbitrary: d0 es)
  case Nil
  then show ?case by simp
next
  case (Cons a rounds)
  obtain es1 d1 oc where ra: "run_attempt loads write_ok d0 a = (es1, d1, oc)"
    by (cases "run_attempt loads write_ok d0 a") auto
  have d1: "5 \<le> d1 \<and> d1 \<le> 60"
    using ra Cons.prems(1,2) by (auto simp: run_attempt_def split: attempt.splits prod.splits sum.splits)
  show ?case
  proof (cases oc)
    case Completed
    with Cons.prems(3) ra obtain es' where "main_loop loads write_ok d1 rounds = (es', d, b)"
      by (auto split: prod.splits)
    with Cons.IH d1 show ?thesis by blast
  next
    case Raised
    with Cons.prems(3) ra obtain es' where
      "main_loop loads write_ok (backoff d1) rounds = (es', d, b)"
      by (auto split: prod.splits)
    moreover have "5 \<le> backoff d1 \<and> backoff d1 \<le> 60"
      using d1 by (auto simp: backoff_def max_retry_delay_def)
    ultimately show ?thesis using Cons.IH by blast
  next
    case KeyboardInterrupt
    with Cons.prems(3) ra d1 show ?thesis by auto
  qed
qed

lemma main_loop_append:
  "main_loop loads write_ok d0 pre = (es, d, False) \<Longrightarrow>
   main_loop loads write_ok d0 (pre @ rounds) =
   (case main_loop loads write_ok d rounds of (es', r) \<Rightarrow> (es @ es', r))"
proof (induction pre arbitrary: d0 es)
  case Nil
  then show ?case by (auto split: prod.splits)
next
  case (Cons a pre)
  obtain es1 d1 oc where ra: "run_attempt loads write_ok d0 a = (es1, d1, oc)"
    by (cases "run_attempt loads write_ok d0 a") auto
  show ?case
  proof (cases oc)
    case Completed
    with Cons.prems ra obtain es' where m: "main_loop loads write_ok d1 pre = (es', d, False)"
      and e: "es = es1 @ es'"
      by (auto split: prod.splits)
    from Cons.IH [OF m, of ] ra Completed e show ?thesis
      by (auto split: prod.splits)
  next
    case Raised
    with Cons.prems ra obtain es' where
      m: "main_loop loads write_ok (backoff d1) pre = (es', d, False)"
      and e: "es = es1 @ [Log ConnectionError, Log (RetryingIn d1), Sleep d1] @ es'"
      by (auto split: prod.splits)
    from Cons.IH [OF m] ra Raised e show ?thesis
      by (auto split: prod.splits)
  next
    case KeyboardInterrupt
    with Cons.prems ra show ?thesis by auto
  qed
qed


lemma main_loop_Connected_reset:
  "main_loop loads write_ok d (Connected chunks e # rounds) =
   main_loop loads write_ok 5 (Connected chunks e # rounds)"
  by (simp add: run_attempt_def)

text \<open>
  Claim C3. The waits of the supervisor. From a fresh start, \<open>k\<close> failed connection
  attempts in a row wait 5, 10, 20, 40, 60, 60, ...: the wait number \<open>i\<close> is
  \<open>min (5 * 2 ^ i) 60\<close>, and the waits never decrease. At any later point of a run that
  was not interrupted, the delay \<open>d\<close> lies between 5 and 60, and failed attempts in a row
  wait \<open>d\<close>, \<open>backoff d\<close>, \<open>backoff (backoff d)\<close>, ..., each wait being
  \<open>min (previous * 2) 60\<close>, and again they never decrease. A round that connects goes on
  as from the delay 5, whatever the delay was before. Three failures from a fresh start
  wait 5, 10 and 20, and the fourth attempt starts with the delay 40.
\<close>

theorem backoff_waits:
  "sleeps (fst (main loads write_ok (replicate k ConnectFailed)))
     = map (\<lambda>i. min (5 * 2 ^ i) 60) [0..<k]
   \<and> sorted (map (\<lambda>i. min (5 * 2 ^ i) 60 :: int) [0..<k])
   \<and> (main loads write_ok pre = (es, d, False) \<longrightarrow>
        5 \<le> d \<and> d \<le> 60
        \<and> sleeps (fst (main loads write_ok (pre @ replicate k ConnectFailed)))
            = sleeps es @ map (\<lambda>i. (backoff ^^ i) d) [0..<k]
        \<and> sorted (map (\<lambda>i. (backoff ^^ i) d) [0..<k]))
   \<and> main_loop loads write_ok d' (Connected chunks e # rounds)
       = main_loop loads write_ok 5 (Connected chunks e # rounds)
   \<and> sleeps (fst (main loads write_ok [ConnectFailed, ConnectFailed, ConnectFailed])) = [5, 10, 20]
   \<and> fst (snd (main loads write_ok [ConnectFailed, ConnectFailed, ConnectFailed])) = 40"
proof -
  have fresh: "sleeps (fst (main loads write_ok (replicate k ConnectFailed)))
     = map (\<lambda>i. min (5 * 2 ^ i) 60) [0..<k]"
    using main_loop_fails [of loads write_ok 5 k "[]"]
    by (simp add: main_def backoff_closed)
  have srt: "sorted (map (\<lambda>i. min (5 * 2 ^ i) 60 :: int) [0..<k])"
    using backoff_sorted [of 5 k] by (simp add: backoff_closed)
  have run: "5 \<le> d \<and> d \<le> 60
        \<and> sleeps (fst (main loads write_ok (pre @ replicate k ConnectFailed)))
            = sleeps es @ map (\<lambda>i. (backoff ^^ i) d) [0..<k]
        \<and> sorted (map (\<lambda>i. (backoff ^^ i) d) [0..<k])"
    if m: "main loads write_ok pre = (es, d, False)"
  proof -
    from m have m': "main_loop loads write_ok 5 pre = (es, d, False)"
      by (simp add: main_def)
    have b: "5 \<le> d \<and> d \<le> 60"
      using main_loop_delay_bounds [OF _ _ m'] by simp
    have "sleeps (fst (main_loop loads write_ok 5 (pre @ replicate k ConnectFailed)))
          = sleeps es @ sleeps (fst (main_loop loads write_ok d (replicate k ConnectFailed @ [])))"
      by (simp add: main_loop_append [OF m'] split: prod.splits)
    also have "\<dots> = sleeps es @ map (\<lambda>i. (backoff ^^ i) d) [0..<k]"
      by (simp only: main_loop_fails) simp
    finally show ?thesis using b backoff_sorted [of d k] by (simp add: main_def)
  qed
  have three: "main loads write_ok [ConnectFailed, ConnectFailed, ConnectFailed] =
      ([Log Connecting, Log ConnectionError, Log (RetryingIn 5), Sleep 5,
        Log Connecting, Log ConnectionError, Log (RetryingIn 10), Sleep 10,
        Log Connecting, Log ConnectionError, Log (RetryingIn 20), Sleep 20], 40, False)"
    by (simp add: main_def run_attempt_def backoff_def max_retry_delay_def)
  have t1: "sleeps (fst (main loads write_ok [ConnectFailed, ConnectFailed, ConnectFailed])) = [5, 10, 20]"
    and t2: "fst (snd (main loads write_ok [ConnectFailed, ConnectFailed, ConnectFailed])) = 40"
    by (simp_all only: three fst_conv snd_conv sleeps_Cons)
  have reset: "main_loop loads write_ok d' (Connected chunks e # rounds)
       = main_loop loads write_ok 5 (Connected chunks e # rounds)"
    by (rule main_loop_Connected_reset)
  from fresh srt run reset t1 t2 show ?thesis by blast
qed

theorem backoff_waits_witness:
  "main (\<lambda>_. None) (\<lambda>_. True) [Connected [] ReadError]
     = ([Log Connecting, Log ConnectedMsg, Log ConnectionError, Log (RetryingIn 5), Sleep 5], 10, False)
   \<and> sleeps (fst (main (\<lambda>_. None) (\<lambda>_. True) ([Connected [] ReadError] @ replicate 3 ConnectFailed)))
     = [5, 10, 20, 40]"
proof -
  have h: "main (\<lambda>_. None) (\<lambda>_. True) [Connected [] ReadError]
     = ([Log Connecting, Log ConnectedMsg, Log ConnectionError, Log (RetryingIn 5), Sleep 5], 10, False)"
    by (simp add: main_def run_attempt_def ret_def backoff_def max_retry_delay_def)
  have "map (\<lambda>i. (backoff ^^ i) 10) [0..<3] = [10, 20, 40]"
    by (simp add: upt_rec backoff_def max_retry_delay_def eval_nat_numeral)
  with backoff_waits [of "\<lambda>_. None" "\<lambda>_. True" 3 "[Connected [] ReadError]" _ 10] h
  show ?thesis by simp
qed

subsection \<open>The envelope processor\<close>

lemma py_getitem_not_decode [simp]: "py_getitem v k \<noteq> Inl JSONDecodeError"
  by (cases v) (auto split: option.splits)

lemma py_int_not_decode [simp]: "py_int v \<noteq> Inl JSONDecodeError"
  by (induction v rule: py_int.induct) (auto split: option.splits)

lemma py_float_not_decode [simp]: "py_float v \<noteq> Inl JSONDecodeError"
  by (induction v rule: py_float.induct) (auto split: option.splits pyfloat.splits)

lemma process_event_body_quiet:
  "py_json_loads loads d = Inr data \<Longrightarrow>
   snd (process_event_body loads w d) \<noteq> Inl JSONDecodeError
   \<and> Log JsonDecodeErrorMsg \<notin> set (fst (process_event_body loads w d))"
  by (auto simp: process_event_body_def andthen_def lift_def emit_def raise_def Let_def
      split: sum.splits prod.splits)


lemma process_event_decode_msg:
  "Log JsonDecodeErrorMsg \<in> set (fst (process_event loads w d)) \<Longrightarrow>
   py_json_loads loads d = Inl JSONDecodeError"
proof (cases "py_json_loads loads d")
  case (Inl x)
  assume a: "Log JsonDecodeErrorMsg \<in> set (fst (process_event loads w d))"
  from Inl have "process_event_body loads w d = ([], Inl x)"
    by (simp add: process_event_body_def andthen_def lift_def)
  with a have "x = JSONDecodeError"
    by (auto simp: process_event_def try_except_def emit_def split: if_splits)
  with Inl show ?thesis by simp
next
  case (Inr data)
  assume a: "Log JsonDecodeErrorMsg \<in> set (fst (process_event loads w d))"
  obtain es r where b: "process_event_body loads w d = (es, r)"
    by (cases "process_event_body loads w d")
  with process_event_body_quiet [OF Inr, of w] have "r \<noteq> Inl JSONDecodeError"
    and "Log JsonDecodeErrorMsg \<notin> set es" by auto
  with a b have False
    by (auto simp: process_event_def try_except_def emit_def split: sum.splits if_splits)
  then show ?thesis ..
qed

lemma process_event_processing:
  "py_json_loads loads d = Inr data \<Longrightarrow> Log ProcessingEvent \<in> set (fst (process_event loads w d))"
  by (auto simp: process_event_def try_except_def process_event_body_def andthen_def lift_def
      emit_def split: sum.splits prod.splits)

lemma process_event_decode_msg_pair:
  "process_event loads w d = (es, r) \<Longrightarrow> py_json_loads loads d = Inr v \<Longrightarrow>
   Log JsonDecodeErrorMsg \<notin> set es"
  using process_event_decode_msg [of loads w d] by auto

lemma handle_payload_quiet:
  "Log JsonDecodeErrorMsg \<notin> set (fst (handle_payload loads w payload))"
proof
  assume a: "Log JsonDecodeErrorMsg \<in> set (fst (handle_payload loads w payload))"
  then show False
    by (auto simp: handle_payload_def try_except_def andthen_def lift_def emit_def ret_def
        split: sum.splits prod.splits if_splits dest: process_event_decode_msg_pair)
qed


lemma andthen_effects:
  assumes that: "x \<in> set (fst (andthen m f))"
  shows "x \<in> set (fst m) \<or> (\<exists>a. x \<in> set (fst (f a)))"
proof (cases m)
  case (Pair es r)
  show ?thesis
  proof (cases r)
    case (Inl e)
    with Pair that show ?thesis by (simp add: andthen_def)
  next
    case (Inr a)
    obtain es' r' where fa: "f a = (es', r')" by (cases "f a")
    with Pair Inr that have "x \<in> set es \<or> x \<in> set (fst (f a))"
      by (auto simp: andthen_def)
    with Pair show ?thesis by auto
  qed
qed

lemma process_message_effects:
  "x \<in> set (fst (process_message h m)) \<Longrightarrow> \<exists>p. x \<in> set (fst (h p))"
  by (auto simp: process_message_def ret_def split: if_splits option.splits)

lemma process_messages_effects:
  "x \<in> set (fst (process_messages h ms)) \<Longrightarrow> \<exists>p. x \<in> set (fst (h p))"
proof (induction ms)
  case Nil
  then show ?case by (simp add: ret_def)
next
  case (Cons m ms)
  then show ?case by (auto dest!: andthen_effects process_message_effects)
qed

lemma process_chunk_effects:
  "x \<in> set (fst (process_chunk h b c)) \<Longrightarrow> \<exists>p. x \<in> set (fst (h p))"
  by (auto simp: process_chunk_def Let_def ret_def split: if_splits
      dest!: andthen_effects process_messages_effects)

lemma stream_loop_effects:
  "x \<in> set (fst (stream_loop h b cs)) \<Longrightarrow> \<exists>p. x \<in> set (fst (h p))"
proof (induction cs arbitrary: b)
  case Nil
  then show ?case by (simp add: ret_def)
next
  case (Cons c cs)
  then show ?case by (auto dest!: andthen_effects process_chunk_effects)
qed

lemma stream_loop_quiet:
  "Log JsonDecodeErrorMsg \<notin> set (fst (stream_loop (handle_payload loads w) b cs))"
  using stream_loop_effects [of "Log JsonDecodeErrorMsg" "handle_payload loads w" b cs]
    handle_payload_quiet [of loads w] by blast

lemma run_attempt_quiet:
  "Log JsonDecodeErrorMsg \<notin> set (fst (run_attempt loads w d a))"
proof (cases a)
  case ConnectFailed
  then show ?thesis by (simp add: run_attempt_def)
next
  case ConnectInterrupted
  then show ?thesis by (simp add: run_attempt_def)
next
  case (Connected cs e)
  obtain es r where sl: "stream_loop (handle_payload loads w) [] cs = (es, r)"
    by (cases "stream_loop (handle_payload loads w) [] cs")
  with stream_loop_quiet [of loads w "[]" cs] have "Log JsonDecodeErrorMsg \<notin> set es"
    by simp
  with Connected sl show ?thesis
    by (auto simp: run_attempt_def split: sum.splits)
qed

lemma main_loop_quiet:
  "Log JsonDecodeErrorMsg \<notin> set (fst (main_loop loads w d rounds))"
proof (induction rounds arbitrary: d)
  case Nil
  then show ?case by simp
next
  case (Cons a rounds)
  obtain es1 d1 oc where ra: "run_attempt loads w d a = (es1, d1, oc)"
    by (cases "run_attempt loads w d a") auto
  with run_attempt_quiet [of loads w d a] have q: "Log JsonDecodeErrorMsg \<notin> set es1" by simp
  show ?case
    using ra q Cons.IH [of d1] Cons.IH [of "backoff d1"]
    by (cases oc) (auto split: prod.splits)
qed

lemma process_event_processing_pair:
  "process_event loads w d = (es, r) \<Longrightarrow> py_json_loads loads d = Inr v \<Longrightarrow>
   Log ProcessingEvent \<in> set es"
  using process_event_processing [of loads d v w] by simp

subsection \<open>Evaluation of the decoder\<close>

lemmas parse_fuel =
  parse_value.simps(2) [of "pred_numeral k" for k, folded numeral_eq_Suc]
  parse_array.simps(2) [of "pred_numeral k" for k, folded numeral_eq_Suc]
  parse_object.simps(2) [of "pred_numeral k" for k, folded numeral_eq_Suc]

lemmas json_eval = json_loads_def skip_ws_def json_ws_def dquote_def backslash_def startswith_def
  scan_number_def is_digit_def digits_val_def split_sign_def cons_str_def unescape_def
  parse_fuel hex4_def hex_val_def pow10_def



lemma number_envelope_loads:
  \<open>json_loads ''{"data":5}'' = Some (JObj [(''data'', JInt 5)])\<close>
  by (simp add: json_eval)

lemma number_loads: "json_loads ''5'' = Some (JInt 5)"
  by (simp add: json_eval)

lemma bare_loads:
  \<open>json_loads ''{"measurement":1,"fields":2}''
     = Some (JObj [(''measurement'', JInt 1), (''fields'', JInt 2)])\<close>
  by (simp add: json_eval)

lemma bare_envelope_loads:
  \<open>json_loads (envelope_text ''{"measurement":1,"fields":2}'')
     = Some (JObj [(''data'', JStr ''{"measurement":1,"fields":2}'')])\<close>
  by (simp add: envelope_text_def json_escape_def json_eval)

lemma letter_loads: "json_loads ''x'' = None"
  by (simp add: json_eval)

lemma handle_payload_valid_processing:
  assumes v: "Log ValidSensorReading \<in> set (fst (handle_payload loads w payload))"
  shows "Log ProcessingEvent \<in> set (fst (handle_payload loads w payload))"
proof (rule ccontr)
  assume n: "Log ProcessingEvent \<notin> set (fst (handle_payload loads w payload))"
  from v n show False
    by (auto simp: handle_payload_def try_except_def andthen_def lift_def emit_def ret_def
        split: sum.splits prod.splits if_splits dest: process_event_processing_pair)
qed

lemma process_event_decode_error:
  "loads s = None \<Longrightarrow> process_event loads w (JStr s) = ([Log JsonDecodeErrorMsg], Inr ())"
  by (simp add: process_event_def process_event_body_def try_except_def andthen_def lift_def
      emit_def py_json_loads_def)

text \<open>
  Claim C10. The handler of line 72 is dead code for the calls made from \<open>main\<close>: the
  message it prints is in the output of no payload, of no stream loop and of no run of
  \<open>main\<close>, whatever the decoder answers, the decoder being a function of the text it
  reads. When line 135 announces a valid reading, the text handed to \<open>process_event\<close> was
  decoded in line 132, and \<open>process_event\<close> decodes it again and prints its first line.
  A direct call with a text that does not decode does reach the handler.
\<close>

theorem decode_handler_unreachable:
  "Log JsonDecodeErrorMsg \<notin> set (fst (handle_payload loads write_ok payload))
   \<and> Log JsonDecodeErrorMsg \<notin> set (fst (stream_loop (handle_payload loads write_ok) buffer chunks))
   \<and> Log JsonDecodeErrorMsg \<notin> set (fst (main loads write_ok rounds))
   \<and> (Log ValidSensorReading \<in> set (fst (handle_payload loads write_ok payload)) \<longrightarrow>
        Log ProcessingEvent \<in> set (fst (handle_payload loads write_ok payload)))
   \<and> (loads s = None \<longrightarrow>
        process_event loads write_ok (JStr s) = ([Log JsonDecodeErrorMsg], Inr ()))"
  using handle_payload_quiet [of loads write_ok payload]
    stream_loop_quiet [of loads write_ok buffer chunks]
    main_loop_quiet [of loads write_ok 5 rounds]
    handle_payload_valid_processing [of loads write_ok payload]
    process_event_decode_error [of loads s write_ok]
  unfolding main_def by blast

theorem decode_handler_unreachable_witness:
  \<open>handle_payload json_loads (\<lambda>_. True) (envelope_text ''{"measurement":1,"fields":2}'')
     = ([Log (EventReceived (JStr ''{"measurement":1,"fields":2}'')), Log ValidSensorReading,
         Log ProcessingEvent, Log (PrintMeasurement (JInt 1)),
         Log (ErrorProcessingEvent KeyError)], Inr ())
   \<and> Log ProcessingEvent \<in> set (fst (handle_payload json_loads (\<lambda>_. True)
        (envelope_text ''{"measurement":1,"fields":2}'')))
   \<and> json_loads ''x'' = None
   \<and> process_event json_loads (\<lambda>_. True) (JStr ''x'') = ([Log JsonDecodeErrorMsg], Inr ())\<close>
proof -
  have h: \<open>handle_payload json_loads (\<lambda>_. True) (envelope_text ''{"measurement":1,"fields":2}'')
     = ([Log (EventReceived (JStr ''{"measurement":1,"fields":2}'')), Log ValidSensorReading,
         Log ProcessingEvent, Log (PrintMeasurement (JInt 1)),
         Log (ErrorProcessingEvent KeyError)], Inr ())\<close>
    by (simp add: handle_payload_def process_event_def process_event_body_def try_except_def
        andthen_def lift_def emit_def ret_def py_json_loads_def bare_loads bare_envelope_loads)
  from decode_handler_unreachable [of json_loads "\<lambda>_. True"
      \<open>envelope_text ''{"measurement":1,"fields":2}''\<close> "[]" "[]" "[]" "''x''"] h letter_loads
  show ?thesis by simp
qed







lemma py_in_raises: "py_in k v = Inl x \<Longrightarrow> x = TypeError"
  by (cases v) auto

lemma process_event_returns: "snd (process_event loads write_ok d) = Inr ()"
  by (cases "process_event_body loads write_ok d")
    (auto simp: process_event_def try_except_def emit_def split: sum.splits)

lemma handle_payload_returns:
  assumes "loads payload = Some (JObj wrapper)"
    and "map_of wrapper ''data'' = None \<or> map_of wrapper ''data'' = Some (JStr s)"
  shows "snd (handle_payload loads write_ok payload) = Inr ()"
proof -
  obtain es where p: "process_event loads write_ok (JStr s) = (es, Inr ())"
    using process_event_returns [of loads write_ok "JStr s"]
    by (cases "process_event loads write_ok (JStr s)") auto
  with assms show ?thesis
    by (cases "loads s")
      (auto simp: handle_payload_def try_except_def andthen_def lift_def emit_def ret_def
        py_json_loads_def split: sum.splits dest: py_in_raises)
qed

lemma handle_payload_undecodable:
  "loads payload = None \<Longrightarrow>
   handle_payload loads write_ok payload = ([Log FailedToParseWrapper], Inr ())"
  by (simp add: handle_payload_def try_except_def andthen_def lift_def emit_def py_json_loads_def)

text \<open>
  Claim C1. A payload that fails a validation step is discarded without a write, and for
  an envelope that is an object whose \<^verbatim>\<open>data\<close> is a string (or is missing) nothing is
  raised. It does not hold for every envelope: \<^verbatim>\<open>'data' in wrapper\<close> (line 127) raises
  \<open>TypeError\<close> for a number, and \<^verbatim>\<open>wrapper['data'][:100]\<close> (line 128) raises it for a
  \<^verbatim>\<open>data\<close> that is a number. Both lines stand outside the inner \<^verbatim>\<open>try\<close>, which catches
  \<open>TypeError\<close>, and the outer one catches \<open>JSONDecodeError\<close> only: the exception leaves the
  stream loop and arrives at line 153. The frames that follow in the response are not
  read, the script reports a connection error, sleeps for 5 seconds and doubles the
  delay.
\<close>

theorem malformed_envelope_ends_connection:
  \<open>handle_payload json_loads write_ok ''{"data":5}'' = ([], Inl TypeError)
   \<and> handle_payload json_loads write_ok ''5'' = ([], Inl TypeError)
   \<and> stream_loop (handle_payload json_loads write_ok) [] ((''data: {"data":5}'' @ [nl, nl]) # chunks)
       = ([], Inl TypeError)
   \<and> main json_loads write_ok [Connected ((''data: {"data":5}'' @ [nl, nl]) # chunks) EndOfStream]
       = ([Log Connecting, Log ConnectedMsg, Log ConnectionError, Log (RetryingIn 5), Sleep 5],
          10, False)\<close>
proof -
  have a: \<open>handle_payload json_loads write_ok ''{"data":5}'' = ([], Inl TypeError)\<close>
    by (simp add: handle_payload_def try_except_def andthen_def lift_def ret_def py_json_loads_def
        number_envelope_loads)
  have b: \<open>handle_payload json_loads write_ok ''5'' = ([], Inl TypeError)\<close>
    by (simp add: handle_payload_def try_except_def andthen_def lift_def ret_def py_json_loads_def
        number_loads)
  have s: \<open>py_split [nl, nl] (''data: {"data":5}'' @ [nl, nl]) = [''data: {"data":5}'', []]\<close>
    by (simp add: nl_def)
  have l: \<open>py_split [nl] ''data: {"data":5}'' = [] @ (''data: '' @ ''{"data":5}'') # []\<close>
    by (simp add: nl_def)
  have m: \<open>process_message (handle_payload json_loads write_ok) ''data: {"data":5}''
        = ([], Inl TypeError)\<close>
    using process_message_data [OF l, of "handle_payload json_loads write_ok"] a by simp
  have c: \<open>process_chunk (handle_payload json_loads write_ok) [] (''data: {"data":5}'' @ [nl, nl])
        = ([], Inl TypeError)\<close>
    unfolding process_chunk_def using s m
    by (simp add: andthen_def nl_def)
  have d: \<open>stream_loop (handle_payload json_loads write_ok) []
          ((''data: {"data":5}'' @ [nl, nl]) # chunks) = ([], Inl TypeError)\<close>
    using c by (simp add: andthen_def)
  have e: \<open>main json_loads write_ok
          [Connected ((''data: {"data":5}'' @ [nl, nl]) # chunks) EndOfStream]
       = ([Log Connecting, Log ConnectedMsg, Log ConnectionError, Log (RetryingIn 5), Sleep 5],
          10, False)\<close>
    using d by (simp add: main_def run_attempt_def backoff_def max_retry_delay_def)
  show ?thesis
    using a b d e by simp
qed

subsection \<open>A complete reading\<close>

lemma round_double_40_2: "round_double (201 / 5) = Finite (2828823515942093 / 70368744177664)"
  by code_simp

lemma round_double_21_5: "round_double (43 / 2) = Finite (43 / 2)"
  by code_simp

lemma reading_loads:
  "json_loads reading_text = Some
    (JObj
      [(''measurement'', JStr ''env''),
       (''tags'', JObj [(''location'', JStr ''lab''), (''device'', JStr ''d1'')]),
       (''fields'',
        JObj
         [(''temperature'', JFloat (Finite (43 / 2))),
          (''humidity'', JFloat (Finite (2828823515942093 / 70368744177664)))]),
       (''timestamp'', JInt 1700000000)])"
  by (simp add: reading_text_def json_eval round_double_40_2 round_double_21_5)

lemma reading_envelope_loads:
  "json_loads (envelope_text reading_text) = Some (JObj [(''data'', JStr reading_text)])"
  by (simp add: reading_text_def envelope_text_def json_escape_def json_eval)

lemma reading_writes:
  "writes (fst (process_event json_loads write_ok (JStr reading_text)))
     = (let pt = \<lparr>measurement = JStr ''env'', tag_location = JStr ''lab'',
                   tag_device = JStr ''d1'', field_temperature = Finite (43 / 2),
                   field_humidity = Finite (2828823515942093 / 70368744177664),
                   time_ns = 1700000000000000000\<rparr>
        in if write_ok pt then [pt] else [])"
  by (simp add: process_event_def process_event_body_def try_except_def andthen_def lift_def
      emit_def raise_def py_json_loads_def reading_loads writes_def Let_def)

lemma reading_envelope_writes:
  "writes (fst (handle_payload json_loads write_ok (envelope_text reading_text)))
     = writes (fst (process_event json_loads write_ok (JStr reading_text)))
   \<and> snd (handle_payload json_loads write_ok (envelope_text reading_text)) = Inr ()"
proof -
  obtain es where p: "process_event json_loads write_ok (JStr reading_text) = (es, Inr ())"
    using process_event_returns [of json_loads write_ok "JStr reading_text"]
    by (cases "process_event json_loads write_ok (JStr reading_text)") auto
  then show ?thesis
    by (simp add: handle_payload_def try_except_def andthen_def lift_def emit_def ret_def
        py_json_loads_def reading_loads reading_envelope_loads writes_def)
qed

lemma scenario_frame_split:
  "py_split [nl, nl] scenario_frame = [''data: '' @ envelope_text reading_text, []]"
  by (simp add: scenario_frame_def envelope_text_def json_escape_def reading_text_def nl_def
      dquote_def backslash_def)

lemma scenario_line_split:
  "py_split [nl] (''data: '' @ envelope_text reading_text)
     = [] @ (''data: '' @ envelope_text reading_text) # []"
  by (simp add: envelope_text_def json_escape_def reading_text_def nl_def
      dquote_def backslash_def)

lemma scenario_stream:
  assumes "concat chunks = scenario_frame"
  shows "stream_loop h [] chunks
           = andthen (h (envelope_text reading_text)) (\<lambda>_. ret [])"
proof -
  have e: "envelope_text reading_text \<noteq> []"
    by (simp add: envelope_text_def)
  have m: "process_message h (''data: '' @ envelope_text reading_text)
             = h (envelope_text reading_text)"
    using process_message_data [OF scenario_line_split, of h] e by simp
  have "stream_loop h [] chunks =
        andthen (process_messages h (butlast (py_split [nl, nl] scenario_frame)))
          (\<lambda>_. ret (last (py_split [nl, nl] scenario_frame)))"
    using stream_loop_eq [of "[]" h chunks] assms by simp
  then show ?thesis
    using m by (simp add: scenario_frame_split)
qed

lemma concat_singletons: "concat (map (\<lambda>c. [c]) xs) = xs"
  by (induction xs) simp_all

text \<open>
  Claim C4. The frame of the example, a \<^verbatim>\<open>data: \<close> line with the envelope of the reading
  followed by the delimiter, delivered in chunks of any size: one point is written, with
  the measurement \<^verbatim>\<open>env\<close>, the tags \<^verbatim>\<open>lab\<close> and \<^verbatim>\<open>d1\<close>, the temperature 21.5, the
  humidity 40.2 as the nearest binary64 number, and the time 1700000000000000000; nothing
  is raised and the buffer is empty afterwards. (When the sink refuses the point nothing
  is written.)
\<close>

theorem scenario_reading_written:
  assumes "concat chunks = scenario_frame"
  shows "(let pt = \<lparr>measurement = JStr ''env'', tag_location = JStr ''lab'',
                     tag_device = JStr ''d1'', field_temperature = Finite (43 / 2),
                     field_humidity = Finite (2828823515942093 / 70368744177664),
                     time_ns = 1700000000000000000\<rparr>
          in writes (fst (stream_loop (handle_payload json_loads write_ok) [] chunks))
               = (if write_ok pt then [pt] else [])
             \<and> writes (fst (main json_loads write_ok [Connected chunks EndOfStream]))
               = (if write_ok pt then [pt] else []))
         \<and> snd (stream_loop (handle_payload json_loads write_ok) [] chunks) = Inr []
         \<and> round_double (43 / 2) = Finite (43 / 2)
         \<and> round_double (201 / 5) = Finite (2828823515942093 / 70368744177664)"
proof -
  let ?h = "handle_payload json_loads write_ok"
  obtain es where h: "?h (envelope_text reading_text) = (es, Inr ())"
    using reading_envelope_writes [of write_ok]
    by (cases "?h (envelope_text reading_text)") auto
  have s: "stream_loop ?h [] chunks = (es, Inr [])"
    using scenario_stream [OF assms, of ?h] h by (simp add: andthen_def ret_def)
  have w: "writes es = writes (fst (process_event json_loads write_ok (JStr reading_text)))"
    using reading_envelope_writes [of write_ok] h by simp
  have m: "writes (fst (main json_loads write_ok [Connected chunks EndOfStream])) = writes es"
    using s by (simp add: main_def run_attempt_def writes_def)
  show ?thesis
    using s w m reading_writes [of write_ok] round_double_21_5 round_double_40_2
    by (simp add: Let_def)
qed

theorem scenario_reading_written_witness:
  "concat (map (\<lambda>c. [c]) scenario_frame) = scenario_frame
   \<and> writes (fst (stream_loop (handle_payload json_loads (\<lambda>_. True)) []
        (map (\<lambda>c. [c]) scenario_frame)))
     = [\<lparr>measurement = JStr ''env'', tag_location = JStr ''lab'',
          tag_device = JStr ''d1'', field_temperature = Finite (43 / 2),
          field_humidity = Finite (2828823515942093 / 70368744177664),
          time_ns = 1700000000000000000\<rparr>]"
proof -
  have c: "concat (map (\<lambda>c. [c]) scenario_frame) = scenario_frame"
    by (rule concat_singletons)
  from scenario_reading_written [OF c, of "\<lambda>_. True"] c show ?thesis
    by (simp add: Let_def)
qed

text \<open>
  Claim C5. For a point that \<open>process_event\<close> writes, the time is the value of
  \<^verbatim>\<open>int(data['timestamp'])\<close> multiplied by 1000000000, an integer product without rounding:
  for a timestamp that is an integer, as a reading has it, the time is that
  integer times 1000000000, and 1700000000 gives 1700000000000000000.
\<close>

theorem timestamp_nanoseconds:
  assumes "py_json_loads loads event_data = Inr data"
    and "py_getitem data ''timestamp'' = Inr ts"
    and "p \<in> set (writes (fst (process_event loads write_ok event_data)))"
  shows "(\<exists>secs. py_int ts = Inr secs \<and> time_ns p = secs * 1000000000)
         \<and> (ts = JInt n \<longrightarrow> time_ns p = n * 1000000000)
         \<and> (ts = JInt 1700000000 \<longrightarrow> time_ns p = 1700000000000000000)"
  using assms
  by (auto simp: process_event_def try_except_def process_event_body_def andthen_def lift_def
      emit_def raise_def writes_def Let_def split: sum.splits prod.splits if_splits)

theorem timestamp_nanoseconds_witness:
  "py_json_loads json_loads (JStr reading_text) = Inr
    (JObj
      [(''measurement'', JStr ''env''),
       (''tags'', JObj [(''location'', JStr ''lab''), (''device'', JStr ''d1'')]),
       (''fields'',
        JObj
         [(''temperature'', JFloat (Finite (43 / 2))),
          (''humidity'', JFloat (Finite (2828823515942093 / 70368744177664)))]),
       (''timestamp'', JInt 1700000000)])
   \<and> writes (fst (process_event json_loads (\<lambda>_. True) (JStr reading_text)))
     = [\<lparr>measurement = JStr ''env'', tag_location = JStr ''lab'',
          tag_device = JStr ''d1'', field_temperature = Finite (43 / 2),
          field_humidity = Finite (2828823515942093 / 70368744177664),
          time_ns = 1700000000000000000\<rparr>]
   \<and> time_ns \<lparr>measurement = JStr ''env'', tag_location = JStr ''lab'',
          tag_device = JStr ''d1'', field_temperature = Finite (43 / 2),
          field_humidity = Finite (2828823515942093 / 70368744177664),
          time_ns = 1700000000000000000\<rparr> = 1700000000 * 1000000000"
proof -
  let ?pt = "\<lparr>measurement = JStr ''env'', tag_location = JStr ''lab'',
          tag_device = JStr ''d1'', field_temperature = Finite (43 / 2),
          field_humidity = Finite (2828823515942093 / 70368744177664),
          time_ns = 1700000000000000000\<rparr>"
  have l: "py_json_loads json_loads (JStr reading_text) = Inr
    (JObj
      [(''measurement'', JStr ''env''),
       (''tags'', JObj [(''location'', JStr ''lab''), (''device'', JStr ''d1'')]),
       (''fields'',
        JObj
         [(''temperature'', JFloat (Finite (43 / 2))),
          (''humidity'', JFloat (Finite (2828823515942093 / 70368744177664)))]),
       (''timestamp'', JInt 1700000000)])"
    by (simp add: py_json_loads_def reading_loads)
  have w: "writes (fst (process_event json_loads (\<lambda>_. True) (JStr reading_text))) = [?pt]"
    using reading_writes [of "\<lambda>_. True"] by (simp add: Let_def)
  have t: "py_getitem (JObj
      [(''measurement'', JStr ''env''),
       (''tags'', JObj [(''location'', JStr ''lab''), (''device'', JStr ''d1'')]),
       (''fields'',
        JObj
         [(''temperature'', JFloat (Finite (43 / 2))),
          (''humidity'', JFloat (Finite (2828823515942093 / 70368744177664)))]),
       (''timestamp'', JInt 1700000000)]) ''timestamp'' = Inr (JInt 1700000000)"
    by simp
  have p: "?pt \<in> set (writes (fst (process_event json_loads (\<lambda>_. True) (JStr reading_text))))"
    unfolding w by simp
  from timestamp_nanoseconds [OF l t p, of 1700000000] l w show ?thesis
    by simp
qed

end
